theory Spec2Isabelle
  imports Complex_Main "HOL-Library.Sublist" "HOL-Library.Word"
begin

section \<open>Python values\<close>

text \<open>
  The program is \<^verbatim>\<open>src/data/make-dataset.py\<close>. It works on Python values that come
  out of \<^verbatim>\<open>response.json()\<close>, so the model has the JSON tree as its value type.

  A Python \<^verbatim>\<open>str\<close> is a sequence of Unicode code points: \<open>len\<close> counts code points and
  \<^verbatim>\<open>encode("utf-8")\<close> turns them into bytes. It is modelled as a list of code points
  (natural numbers); \<open>ascii\<close> embeds the string literals of the source.

  \<^verbatim>\<open>None\<close> is \<open>JNull\<close>. A \<^verbatim>\<open>dict\<close> is an association list read with \<open>map_of\<close> (the
  first binding of a key is the dict's binding). Numbers are rationals: IEEE rounding
  and the non-finite floats lie outside the model, and no function of the program
  computes with them.
\<close>

type_synonym pystr = "nat list"

type_synonym byte = "8 word"

definition ascii :: "string \<Rightarrow> pystr" where
  "ascii s = map of_char s"

datatype json =
    JNull
  | JBool bool
  | JNum rat
  | JStr pystr
  | JArr "json list"
  | JObj "(pystr \<times> json) list"

text \<open>
  What the source can raise. \<open>TransportError\<close> and \<open>ApiError\<close> are the two
  \<^verbatim>\<open>raise Exception(...)\<close> statements of \<^verbatim>\<open>get_yelp_data\<close> (lines 144 and 154), named as
  the specification names them; they carry the values the message is formatted from.
  The others are the exceptions Python itself raises on an ill-typed value.
\<close>

datatype error =
    TransportError int pystr
  | ApiError json
  | JSONDecodeError
  | AttributeError
  | TypeError
  | KeyError
  | UnicodeEncodeError

text \<open>Sequencing: an exception ends the computation.\<close>

definition then_do :: "error + 'a \<Rightarrow> ('a \<Rightarrow> error + 'b) \<Rightarrow> error + 'b" where
  "then_do m f = (case m of Inl e \<Rightarrow> Inl e | Inr v \<Rightarrow> f v)"

text \<open>\<^verbatim>\<open>obj.get(key, default)\<close>: only a dict has the method.\<close>

definition py_get :: "json \<Rightarrow> pystr \<Rightarrow> json \<Rightarrow> error + json" where
  "py_get obj k d =
     (case obj of
        JObj kvs \<Rightarrow> Inr (case map_of kvs k of None \<Rightarrow> d | Some v \<Rightarrow> v)
      | _ \<Rightarrow> Inl AttributeError)"

text \<open>The keys of a dict, in insertion order, each once.\<close>

fun dict_keys :: "(pystr \<times> json) list \<Rightarrow> pystr list" where
  "dict_keys [] = []"
| "dict_keys ((k, v) # kvs) = k # filter (\<lambda>k'. k' \<noteq> k) (dict_keys kvs)"

text \<open>
  \<^verbatim>\<open>for x in v\<close>: a list gives its elements, a dict its keys, a str its characters
  (each a str of length one); anything else is not iterable.
\<close>

definition py_iter :: "json \<Rightarrow> error + json list" where
  "py_iter v =
     (case v of
        JArr xs \<Rightarrow> Inr xs
      | JObj kvs \<Rightarrow> Inr (map JStr (dict_keys kvs))
      | JStr s \<Rightarrow> Inr (map (\<lambda>c. JStr [c]) s)
      | _ \<Rightarrow> Inl TypeError)"

text \<open>\<^verbatim>\<open>len(v)\<close>.\<close>

definition py_len :: "json \<Rightarrow> error + nat" where
  "py_len v =
     (case v of
        JStr s \<Rightarrow> Inr (length s)
      | JArr xs \<Rightarrow> Inr (length xs)
      | JObj kvs \<Rightarrow> Inr (length (dict_keys kvs))
      | _ \<Rightarrow> Inl TypeError)"

text \<open>Truth value of a Python object, as \<^verbatim>\<open>x or []\<close> tests it.\<close>

definition truthy :: "json \<Rightarrow> bool" where
  "truthy v =
     (case v of
        JNull \<Rightarrow> False
      | JBool b \<Rightarrow> b
      | JNum r \<Rightarrow> r \<noteq> 0
      | JStr s \<Rightarrow> s \<noteq> []
      | JArr xs \<Rightarrow> xs \<noteq> []
      | JObj kvs \<Rightarrow> kvs \<noteq> [])"

definition py_or :: "json \<Rightarrow> json \<Rightarrow> json" where
  "py_or a b = (if truthy a then a else b)"

text \<open>
  Sets. A list and a dict are unhashable. Python's equality identifies \<^verbatim>\<open>True\<close> with 1
  and \<^verbatim>\<open>False\<close> with 0; \<open>py_key\<close> is the representative that decides it on hashable
  values. A set keeps the element inserted first. The order in which Python iterates
  over a set depends on the hashes; the model lists the elements in insertion order,
  and nothing below depends on that order.
\<close>

definition hashable :: "json \<Rightarrow> bool" where
  "hashable v = (case v of JArr xs \<Rightarrow> False | JObj kvs \<Rightarrow> False | _ \<Rightarrow> True)"

definition py_key :: "json \<Rightarrow> json" where
  "py_key v = (case v of JBool b \<Rightarrow> JNum (if b then 1 else 0) | _ \<Rightarrow> v)"

definition py_eq :: "json \<Rightarrow> json \<Rightarrow> bool" where
  "py_eq a b = (py_key a = py_key b)"

definition set_add :: "json list \<Rightarrow> json \<Rightarrow> error + json list" where
  "set_add s v =
     (if \<not> hashable v then Inl TypeError
      else Inr (if list_ex (\<lambda>y. py_eq y v) s then s else s @ [v]))"

text \<open>\<^verbatim>\<open>set(xs)\<close>, started from the elements already in \<open>s\<close>.\<close>

fun py_set :: "json list \<Rightarrow> json list \<Rightarrow> error + json list" where
  "py_set s [] = Inr s"
| "py_set s (x # xs) = then_do (set_add s x) (\<lambda>s'. py_set s' xs)"

text \<open>
  \<^verbatim>\<open>s.encode("utf-8")\<close>: a surrogate code point cannot be encoded
  (\<^verbatim>\<open>json.loads\<close> does produce lone surrogates from escapes such as \<^verbatim>\<open>\ud800\<close>).
\<close>

definition is_surrogate :: "nat \<Rightarrow> bool" where
  "is_surrogate c = (55296 \<le> c \<and> c \<le> 57343)"

text \<open>The code points of a str lie below 0x110000.\<close>

definition code_point :: "nat \<Rightarrow> bool" where
  "code_point c = (c < 1114112)"

definition utf8_char :: "nat \<Rightarrow> byte list" where
  "utf8_char c =
     (if c < 128 then [of_nat c]
      else if c < 2048 then [of_nat (192 + c div 64), of_nat (128 + c mod 64)]
      else if c < 65536 then
        [of_nat (224 + c div 4096), of_nat (128 + (c div 64) mod 64), of_nat (128 + c mod 64)]
      else
        [of_nat (240 + c div 262144), of_nat (128 + (c div 4096) mod 64),
         of_nat (128 + (c div 64) mod 64), of_nat (128 + c mod 64)])"

definition utf8 :: "pystr \<Rightarrow> byte list" where
  "utf8 s = concat (map utf8_char s)"

definition encode_utf8 :: "pystr \<Rightarrow> error + byte list" where
  "encode_utf8 s = (if list_ex is_surrogate s then Inl UnicodeEncodeError else Inr (utf8 s))"

text \<open>\<^verbatim>\<open>str(n)\<close> of an integer: its decimal digits.\<close>

fun str_nat :: "nat \<Rightarrow> pystr" where
  "str_nat n = (if n < 10 then [48 + n] else str_nat (n div 10) @ [48 + n mod 10])"

definition str_int :: "int \<Rightarrow> pystr" where
  "str_int i = (if i < 0 then 45 # str_nat (nat (- i)) else str_nat (nat i))"

declare str_nat.simps [simp del]

text \<open>
  The number that a string of decimal digits denotes (48 is the digit 0): how the
  remote side reads the offset and the limit written into the query.
\<close>

definition decimal :: "pystr \<Rightarrow> nat" where
  "decimal ds = foldl (\<lambda>a d. 10 * a + (d - 48)) 0 ds"

section \<open>The record collections\<close>

text \<open>
  The three data frames of \<^verbatim>\<open>get_yelp_data\<close> are lists of rows, appended at the end.
  A field holds the Python value the source stores in it: \<open>business.get(...)\<close> gives a
  JSON value or \<^verbatim>\<open>None\<close>. The two category columns hold \<^verbatim>\<open>json.dumps\<close> of a list; the
  model keeps the list that is serialised.
\<close>

record business_record =
  business_alias :: json
  business_review_count :: json
  business_rating :: json
  business_price :: nat
  business_city :: json
  business_state :: json
  business_postal_code :: json
  business_country :: json
  business_latitude :: json
  business_longitude :: json
  business_categories :: "json list"
  business_parent_categories :: "json list"

record review_record =
  review_business_alias :: json
  review_text :: json
  review_rating :: json

record photo_record =
  photo_business_alias :: json
  photo_url :: pystr
  file_name :: pystr

type_synonym tables = "business_record list \<times> review_record list \<times> photo_record list"

section \<open>The network\<close>

text \<open>
  \<^verbatim>\<open>requests.post\<close> and \<^verbatim>\<open>requests.get\<close> are the program's only view of the network.
  A request is answered by a response; what the remote side answers may depend on
  everything this program has sent before, so a server is a function of the requests
  sent so far and the current request, and the state of the network is the list of
  requests sent. A response carries its status code, its text, its raw content and
  what \<^verbatim>\<open>response.json()\<close> returns (\<open>None\<close> when the body is not JSON and the call
  raises). Failures of the connection itself, for which the library raises instead of
  returning a response, are outside the model.
\<close>

datatype request =
    Post pystr "(pystr \<times> pystr) list" pystr
  | Get pystr

record response =
  status_code :: int
  resp_text :: pystr
  resp_content :: "byte list"
  resp_json :: "json option"

type_synonym server = "request list \<Rightarrow> request \<Rightarrow> response"

section \<open>get\_yelp\_data\<close>

text \<open>Lines 92 to 99: the endpoint, the headers, the two constants of the pagination.\<close>

definition url :: pystr where
  "url = ascii ''https://api.yelp.com/v3/graphql''"

text \<open>
  \<^verbatim>\<open>YELP_API_KEY\<close> is a global read from the environment: a str, or \<^verbatim>\<open>None\<close> when the
  variable is not set, which the f-string formats as \<^verbatim>\<open>None\<close>.
\<close>

definition headers :: "pystr option \<Rightarrow> (pystr \<times> pystr) list" where
  "headers YELP_API_KEY =
     [(ascii ''Authorization'',
       ascii ''Bearer '' @ (case YELP_API_KEY of None \<Rightarrow> ascii ''None'' | Some k \<Rightarrow> k)),
      (ascii ''Content-Type'', ascii ''application/graphql'')]"

definition count :: nat where
  "count = 200"

definition limit :: nat where
  "limit = 50"

text \<open>\<^verbatim>\<open>range(start, stop, step)\<close> for a positive step.\<close>

definition py_range :: "nat \<Rightarrow> nat \<Rightarrow> nat \<Rightarrow> nat list" where
  "py_range start stop step =
     map (\<lambda>k. start + k * step) [0 ..< (stop + step - 1 - start) div step]"

text \<open>Lines 104 to 139: the f-string of the query (10 is the newline, 34 the double quote).\<close>

definition build_query :: "pystr \<Rightarrow> pystr \<Rightarrow> nat \<Rightarrow> nat \<Rightarrow> pystr" where
  "build_query category location offset lmt =
     ascii ''{'' @ [10]
     @ ascii ''        search(''
     @ ascii ''            categories: '' @ [34] @ category @ [34] @ ascii '', ''
     @ ascii ''            location: '' @ [34] @ location @ [34] @ ascii '', ''
     @ ascii ''            offset: '' @ str_nat offset @ ascii '', ''
     @ ascii ''            limit:  '' @ str_nat lmt
     @ ascii ''        ) {'' @ [10]
     @ ascii ''            business {'' @ [10]
     @ ascii ''                alias'' @ [10]
     @ ascii ''                review_count'' @ [10]
     @ ascii ''                rating'' @ [10]
     @ ascii ''                price'' @ [10]
     @ ascii ''                location {'' @ [10]
     @ ascii ''                    city'' @ [10]
     @ ascii ''                    state'' @ [10]
     @ ascii ''                    postal_code'' @ [10]
     @ ascii ''                    country'' @ [10]
     @ ascii ''                }'' @ [10]
     @ ascii ''                coordinates {'' @ [10]
     @ ascii ''                    latitude'' @ [10]
     @ ascii ''                    longitude'' @ [10]
     @ ascii ''                }'' @ [10]
     @ ascii ''                categories {'' @ [10]
     @ ascii ''                    alias'' @ [10]
     @ ascii ''                    parent_categories {'' @ [10]
     @ ascii ''                        alias'' @ [10]
     @ ascii ''                    }'' @ [10]
     @ ascii ''                }'' @ [10]
     @ ascii ''                photos'' @ [10]
     @ ascii ''                reviews {'' @ [10]
     @ ascii ''                    text'' @ [10]
     @ ascii ''                    rating'' @ [10]
     @ ascii ''                }'' @ [10]
     @ ascii ''            }'' @ [10]
     @ ascii ''        }'' @ [10]
     @ ascii ''    }''"

definition page_request :: "pystr option \<Rightarrow> pystr \<Rightarrow> pystr \<Rightarrow> nat \<Rightarrow> request" where
  "page_request YELP_API_KEY category location offset =
     Post url (headers YELP_API_KEY) (build_query category location offset limit)"

text \<open>
  Lines 141 to 156: send the query, check the status, parse the body, check for
  \<^verbatim>\<open>errors\<close>. \<open>"errors" in data\<close> is a key test on a dict, a membership test on a list and
  a substring test on a str; \<open>data['errors']\<close> in the message needs a dict.
  The result is the new state of the network and the payload or the exception.
\<close>

definition py_in :: "pystr \<Rightarrow> json \<Rightarrow> error + bool" where
  "py_in k v =
     (case v of
        JObj kvs \<Rightarrow> Inr (map_of kvs k \<noteq> None)
      | JArr xs \<Rightarrow> Inr (list_ex (\<lambda>x. x = JStr k) xs)
      | JStr s \<Rightarrow> Inr (sublist k s)
      | _ \<Rightarrow> Inl TypeError)"

definition py_item :: "json \<Rightarrow> pystr \<Rightarrow> error + json" where
  "py_item v k =
     (case v of
        JObj kvs \<Rightarrow> (case map_of kvs k of None \<Rightarrow> Inl KeyError | Some x \<Rightarrow> Inr x)
      | _ \<Rightarrow> Inl TypeError)"

definition check_response :: "response \<Rightarrow> error + json" where
  "check_response r =
     (if \<not> status_code r = 200 then Inl (TransportError (status_code r) (resp_text r))
      else
        (case resp_json r of
           None \<Rightarrow> Inl JSONDecodeError
         | Some data \<Rightarrow>
             then_do (py_in (ascii ''errors'') data) (\<lambda>has_errors.
               if has_errors
               then then_do (py_item data (ascii ''errors'')) (\<lambda>errs. Inl (ApiError errs))
               else Inr data)))"

definition fetch_page :: "server \<Rightarrow> request list \<Rightarrow> request \<Rightarrow> request list \<times> (error + json)" where
  "fetch_page srv sent req = (sent @ [req], check_response (srv sent req))"

text \<open>
  Lines 160 to 205: the row of one business. The entries of the dict literal are
  evaluated in the order they are written, so the first expression that raises decides
  the exception.
\<close>

text \<open>Lines 165 to 169: the price tier.\<close>

definition price_tier :: "json \<Rightarrow> error + nat" where
  "price_tier business =
     then_do (py_get business (ascii ''price'') JNull) (\<lambda>p.
       if p \<noteq> JNull
       then then_do (py_get business (ascii ''price'') JNull) py_len
       else Inr 0)"

text \<open>\<^verbatim>\<open>business.get(outer, {}).get(inner)\<close>.\<close>

definition get_nested :: "json \<Rightarrow> pystr \<Rightarrow> pystr \<Rightarrow> error + json" where
  "get_nested business outer inner =
     then_do (py_get business outer (JObj [])) (\<lambda>obj. py_get obj inner JNull)"

text \<open>
  Lines 182 to 189: the set comprehension over the categories; each alias is read
  and added to the set in turn.
\<close>

fun category_aliases :: "json list \<Rightarrow> json list \<Rightarrow> error + json list" where
  "category_aliases s [] = Inr s"
| "category_aliases s (cat # cats) =
     then_do (py_get cat (ascii ''alias'') JNull) (\<lambda>a.
     then_do (set_add s a) (\<lambda>s'.
       category_aliases s' cats))"

definition categories_of :: "json \<Rightarrow> error + json list" where
  "categories_of business =
     then_do (py_get business (ascii ''categories'') (JArr [])) (\<lambda>v.
     then_do (py_iter v) (\<lambda>cats.
       category_aliases [] cats))"

text \<open>
  Lines 190 to 202: the list comprehension over the parent categories of every
  category builds the whole list, \<^verbatim>\<open>set(...)\<close> then removes the duplicates.
\<close>

fun aliases_of :: "json list \<Rightarrow> error + json list" where
  "aliases_of [] = Inr []"
| "aliases_of (parent_cat # rest) =
     then_do (py_get parent_cat (ascii ''alias'') JNull) (\<lambda>a.
     then_do (aliases_of rest) (\<lambda>as.
       Inr (a # as)))"

fun parent_aliases :: "json list \<Rightarrow> error + json list" where
  "parent_aliases [] = Inr []"
| "parent_aliases (cat # cats) =
     then_do (py_get cat (ascii ''parent_categories'') (JArr [])) (\<lambda>v.
     then_do (py_iter v) (\<lambda>parent_cats.
     then_do (aliases_of parent_cats) (\<lambda>as.
     then_do (parent_aliases cats) (\<lambda>rest.
       Inr (as @ rest)))))"

definition parent_categories_of :: "json \<Rightarrow> error + json list" where
  "parent_categories_of business =
     then_do (py_get business (ascii ''categories'') (JArr [])) (\<lambda>v.
     then_do (py_iter v) (\<lambda>cats.
     then_do (parent_aliases cats) (\<lambda>as.
       py_set [] as)))"

definition business_row :: "json \<Rightarrow> error + business_record" where
  "business_row business =
     then_do (py_get business (ascii ''alias'') JNull) (\<lambda>v_alias.
     then_do (py_get business (ascii ''review_count'') JNull) (\<lambda>v_review_count.
     then_do (py_get business (ascii ''rating'') JNull) (\<lambda>v_rating.
     then_do (price_tier business) (\<lambda>v_price.
     then_do (get_nested business (ascii ''location'') (ascii ''city'')) (\<lambda>v_city.
     then_do (get_nested business (ascii ''location'') (ascii ''state'')) (\<lambda>v_state.
     then_do (get_nested business (ascii ''location'') (ascii ''postal_code'')) (\<lambda>v_postal_code.
     then_do (get_nested business (ascii ''location'') (ascii ''country'')) (\<lambda>v_country.
     then_do (get_nested business (ascii ''coordinates'') (ascii ''latitude'')) (\<lambda>v_latitude.
     then_do (get_nested business (ascii ''coordinates'') (ascii ''longitude'')) (\<lambda>v_longitude.
     then_do (categories_of business) (\<lambda>v_categories.
     then_do (parent_categories_of business) (\<lambda>v_parent_categories.
       Inr \<lparr>business_alias = v_alias,
            business_review_count = v_review_count,
            business_rating = v_rating,
            business_price = v_price,
            business_city = v_city,
            business_state = v_state,
            business_postal_code = v_postal_code,
            business_country = v_country,
            business_latitude = v_latitude,
            business_longitude = v_longitude,
            business_categories = v_categories,
            business_parent_categories = v_parent_categories\<rparr>))))))))))))"

text \<open>
  Lines 207 to 219: one photo row for each photo. \<open>md5\<close> stands for
  \<^verbatim>\<open>md5(bytes).hexdigest()\<close> of \<^verbatim>\<open>hashlib\<close>, which is not code of this repository and is
  a parameter of the model. \<open>+\<close> on a value that is not a str raises, and only a str has
  \<^verbatim>\<open>encode\<close>.
\<close>

definition py_add_str :: "json \<Rightarrow> pystr \<Rightarrow> error + pystr" where
  "py_add_str v s = (case v of JStr a \<Rightarrow> Inr (a @ s) | _ \<Rightarrow> Inl TypeError)"

fun photo_loop ::
  "(byte list \<Rightarrow> pystr) \<Rightarrow> json \<Rightarrow> json list \<Rightarrow> photo_record list \<Rightarrow> error + photo_record list"
where
  "photo_loop md5 business [] photos = Inr photos"
| "photo_loop md5 business (photo # rest) photos =
     then_do (py_get business (ascii ''alias'') JNull) (\<lambda>v_alias.
     then_do (py_get business (ascii ''alias'') JNull) (\<lambda>v_alias'.
     then_do (py_add_str v_alias' (ascii ''_'')) (\<lambda>prefix.
       case photo of
         JStr u \<Rightarrow>
           then_do (encode_utf8 u) (\<lambda>bytes.
             photo_loop md5 business rest
               (photos @ [\<lparr>photo_business_alias = v_alias,
                            photo_url = u,
                            file_name = prefix @ md5 bytes @ ascii ''.jpg''\<rparr>]))
       | _ \<Rightarrow> Inl AttributeError)))"

text \<open>Lines 221 to 230: one review row for each review.\<close>

fun review_loop :: "json \<Rightarrow> json list \<Rightarrow> review_record list \<Rightarrow> error + review_record list" where
  "review_loop business [] reviews = Inr reviews"
| "review_loop business (review # rest) reviews =
     then_do (py_get business (ascii ''alias'') JNull) (\<lambda>v_alias.
     then_do (py_get review (ascii ''text'') JNull) (\<lambda>v_text.
     then_do (py_get review (ascii ''rating'') JNull) (\<lambda>v_rating.
       review_loop business rest
         (reviews @ [\<lparr>review_business_alias = v_alias,
                       review_text = v_text,
                       review_rating = v_rating\<rparr>]))))"

text \<open>
  Lines 207 and 221: the two loops run over \<^verbatim>\<open>business.get(key, []) or []\<close>.
\<close>

definition add_photos ::
  "(byte list \<Rightarrow> pystr) \<Rightarrow> json \<Rightarrow> photo_record list \<Rightarrow> error + photo_record list"
where
  "add_photos md5 business photos =
     then_do (py_get business (ascii ''photos'') (JArr [])) (\<lambda>v_photos.
     then_do (py_iter (py_or v_photos (JArr []))) (\<lambda>photo_list.
       photo_loop md5 business photo_list photos))"

definition add_reviews :: "json \<Rightarrow> review_record list \<Rightarrow> error + review_record list" where
  "add_reviews business reviews =
     then_do (py_get business (ascii ''reviews'') (JArr [])) (\<lambda>v_reviews.
     then_do (py_iter (py_or v_reviews (JArr []))) (\<lambda>review_list.
       review_loop business review_list reviews))"

text \<open>
  Lines 159 to 230: the body of the loop over the businesses of a page. The three
  data frames are the state; an exception leaves the function and nothing of them is
  returned.
\<close>

fun process_business :: "(byte list \<Rightarrow> pystr) \<Rightarrow> json \<Rightarrow> tables \<Rightarrow> error + tables" where
  "process_business md5 business (businesses, reviews, photos) =
     then_do (business_row business) (\<lambda>row.
     then_do (add_photos md5 business photos) (\<lambda>photos'.
     then_do (add_reviews business reviews) (\<lambda>reviews'.
       Inr (businesses @ [row], reviews', photos'))))"

fun business_loop :: "(byte list \<Rightarrow> pystr) \<Rightarrow> json list \<Rightarrow> tables \<Rightarrow> error + tables" where
  "business_loop md5 [] t = Inr t"
| "business_loop md5 (business # rest) t =
     then_do (process_business md5 business t) (\<lambda>t'. business_loop md5 rest t')"

text \<open>Line 158 and its loop: the businesses of one page payload.\<close>

definition normalize_page :: "(byte list \<Rightarrow> pystr) \<Rightarrow> json \<Rightarrow> tables \<Rightarrow> error + tables" where
  "normalize_page md5 data t =
     then_do (py_get data (ascii ''data'') (JObj [])) (\<lambda>v_data.
     then_do (py_get v_data (ascii ''search'') (JObj [])) (\<lambda>v_search.
     then_do (py_get v_search (ascii ''business'') (JArr [])) (\<lambda>v_business.
     then_do (py_iter v_business) (\<lambda>business_list.
       business_loop md5 business_list t))))"

text \<open>
  Lines 101 and 102: the two loops. The state is the list of requests sent and the
  three data frames; an exception ends the run with the requests sent so far.
\<close>

fun offset_loop ::
  "server \<Rightarrow> pystr option \<Rightarrow> (byte list \<Rightarrow> pystr) \<Rightarrow> pystr \<Rightarrow> pystr \<Rightarrow> nat list
     \<Rightarrow> request list \<Rightarrow> tables \<Rightarrow> request list \<times> (error + tables)"
where
  "offset_loop srv YELP_API_KEY md5 category location [] sent t = (sent, Inr t)"
| "offset_loop srv YELP_API_KEY md5 category location (offset # rest) sent t =
     (case fetch_page srv sent (page_request YELP_API_KEY category location offset) of
        (sent', Inl e) \<Rightarrow> (sent', Inl e)
      | (sent', Inr data) \<Rightarrow>
          (case normalize_page md5 data t of
             Inl e \<Rightarrow> (sent', Inl e)
           | Inr t' \<Rightarrow> offset_loop srv YELP_API_KEY md5 category location rest sent' t'))"

fun location_loop ::
  "server \<Rightarrow> pystr option \<Rightarrow> (byte list \<Rightarrow> pystr) \<Rightarrow> pystr \<Rightarrow> pystr list
     \<Rightarrow> request list \<Rightarrow> tables \<Rightarrow> request list \<times> (error + tables)"
where
  "location_loop srv YELP_API_KEY md5 category [] sent t = (sent, Inr t)"
| "location_loop srv YELP_API_KEY md5 category (location # rest) sent t =
     (case offset_loop srv YELP_API_KEY md5 category location (py_range 0 count limit) sent t of
        (sent', Inl e) \<Rightarrow> (sent', Inl e)
      | (sent', Inr t') \<Rightarrow> location_loop srv YELP_API_KEY md5 category rest sent' t')"

definition get_yelp_data ::
  "server \<Rightarrow> pystr option \<Rightarrow> (byte list \<Rightarrow> pystr) \<Rightarrow> request list \<Rightarrow> pystr list \<Rightarrow> pystr
     \<Rightarrow> request list \<times> (error + tables)"
where
  "get_yelp_data srv YELP_API_KEY md5 sent locations category =
     location_loop srv YELP_API_KEY md5 category locations sent ([], [], [])"

text \<open>
  What lines 211 to 216 store in a photo row of a business: its alias, a str, and the
  file name built from the alias and the digest of the encoded URL.
\<close>

definition named :: "(byte list \<Rightarrow> pystr) \<Rightarrow> json \<Rightarrow> photo_record \<Rightarrow> bool" where
  "named md5 business p \<longleftrightarrow>
     (\<exists>a. py_get business (ascii ''alias'') JNull = Inr (JStr a) \<and>
        photo_business_alias p = JStr a \<and>
        encode_utf8 (photo_url p) = Inr (utf8 (photo_url p)) \<and>
        file_name p = a @ ascii ''_'' @ md5 (utf8 (photo_url p)) @ ascii ''.jpg'')"

section \<open>The schedule of a harvest\<close>

text \<open>
  To state what a harvest sends and returns: the pages in the order in which the two
  loops of lines 101 and 102 visit them, the request of a page, the response the server
  gives to the request of page \<open>i\<close> once the requests of the pages before it have been
  sent, and what that page contributes when it is fetched and normalised on its own.
  \<open>page_loop\<close> is the loop of \<open>offset_loop\<close> over such a list of pages.
\<close>

definition schedule :: "pystr list \<Rightarrow> (pystr \<times> nat) list" where
  "schedule locations =
     concat (map (\<lambda>location. map (\<lambda>offset. (location, offset)) (py_range 0 count limit))
       locations)"

definition scheduled_request :: "pystr option \<Rightarrow> pystr \<Rightarrow> pystr \<times> nat \<Rightarrow> request" where
  "scheduled_request YELP_API_KEY category page =
     page_request YELP_API_KEY category (fst page) (snd page)"

definition response_at ::
  "server \<Rightarrow> pystr option \<Rightarrow> pystr \<Rightarrow> request list \<Rightarrow> (pystr \<times> nat) list \<Rightarrow> nat \<Rightarrow> response"
where
  "response_at srv YELP_API_KEY category sent pages i =
     srv (sent @ map (scheduled_request YELP_API_KEY category) (take i pages))
       (scheduled_request YELP_API_KEY category (pages ! i))"

definition page_at ::
  "server \<Rightarrow> pystr option \<Rightarrow> (byte list \<Rightarrow> pystr) \<Rightarrow> pystr \<Rightarrow> request list
     \<Rightarrow> (pystr \<times> nat) list \<Rightarrow> nat \<Rightarrow> error + tables"
where
  "page_at srv YELP_API_KEY md5 category sent pages i =
     then_do (check_response (response_at srv YELP_API_KEY category sent pages i)) (\<lambda>data.
       normalize_page md5 data ([], [], []))"

fun append_tables :: "tables \<Rightarrow> tables \<Rightarrow> tables" where
  "append_tables (b1, r1, p1) (b2, r2, p2) = (b1 @ b2, r1 @ r2, p1 @ p2)"

fun page_loop ::
  "server \<Rightarrow> pystr option \<Rightarrow> (byte list \<Rightarrow> pystr) \<Rightarrow> pystr \<Rightarrow> (pystr \<times> nat) list
     \<Rightarrow> request list \<Rightarrow> tables \<Rightarrow> request list \<times> (error + tables)"
where
  "page_loop srv YELP_API_KEY md5 category [] sent t = (sent, Inr t)"
| "page_loop srv YELP_API_KEY md5 category (page # rest) sent t =
     (case fetch_page srv sent (scheduled_request YELP_API_KEY category page) of
        (sent', Inl e) \<Rightarrow> (sent', Inl e)
      | (sent', Inr data) \<Rightarrow>
          (case normalize_page md5 data t of
             Inl e \<Rightarrow> (sent', Inl e)
           | Inr t' \<Rightarrow> page_loop srv YELP_API_KEY md5 category rest sent' t'))"

section \<open>download\_photos\<close>

text \<open>
  The file system as \<^verbatim>\<open>download_photos\<close> sees it: the files with their contents and the
  directories, both under the path string the program uses. \<^verbatim>\<open>os.path.exists\<close> is true
  of either. Paths are names: two strings that the operating system would resolve to
  the same file are different paths here, and the errors of the operating system
  (permissions, a missing parent directory, a full disk) are outside the model, so
  \<^verbatim>\<open>os.makedirs\<close> and the write always succeed.
\<close>

record filesystem =
  files :: "pystr \<rightharpoonup> byte list"
  dirs :: "pystr set"

definition path_exists :: "filesystem \<Rightarrow> pystr \<Rightarrow> bool" where
  "path_exists f p = (files f p \<noteq> None \<or> p \<in> dirs f)"

definition makedirs :: "filesystem \<Rightarrow> pystr \<Rightarrow> filesystem" where
  "makedirs f p = f\<lparr>dirs := insert p (dirs f)\<rparr>"

definition write_file :: "filesystem \<Rightarrow> pystr \<Rightarrow> byte list \<Rightarrow> filesystem" where
  "write_file f p bytes = f\<lparr>files := (files f)(p \<mapsto> bytes)\<rparr>"

text \<open>\<^verbatim>\<open>os.path.join(a, b)\<close> of \<^verbatim>\<open>posixpath\<close> (47 is the slash).\<close>

definition path_join :: "pystr \<Rightarrow> pystr \<Rightarrow> pystr" where
  "path_join a b =
     (if b \<noteq> [] \<and> hd b = 47 then b
      else if a = [] \<or> last a = 47 then a @ b
      else a @ [47] @ b)"

datatype log_entry = Info pystr | Warning pystr

text \<open>The state \<^verbatim>\<open>download_photos\<close> works on: the file system, the requests sent, the log.\<close>

record world =
  fs :: filesystem
  net :: "request list"
  logged :: "log_entry list"

text \<open>Lines 262 to 267: the text of the warning.\<close>

definition photo_warning :: "pystr \<Rightarrow> response \<Rightarrow> pystr" where
  "photo_warning u r =
     ascii ''Photo URL : '' @ u @ [10]
     @ ascii ''Yelp API request failed with status code: ''
     @ str_int (status_code r) @ ascii ''.'' @ [10]
     @ ascii ''Response text: '' @ resp_text r"

text \<open>Lines 255 to 273: the loop over the photo rows.\<close>

fun download_loop :: "server \<Rightarrow> pystr \<Rightarrow> photo_record list \<Rightarrow> world \<Rightarrow> world" where
  "download_loop srv target_path [] w = w"
| "download_loop srv target_path (photo # rest) w =
     (let file_path = path_join target_path (file_name photo) in
      if \<not> path_exists (fs w) file_path then
        (let req = Get (photo_url photo);
             r = srv (net w) req;
             w' = w\<lparr>net := net w @ [req]\<rparr>
         in if \<not> status_code r = 200
            then download_loop srv target_path rest
                   (w'\<lparr>logged := logged w' @ [Warning (photo_warning (photo_url photo) r)]\<rparr>)
            else download_loop srv target_path rest
                   (w'\<lparr>fs := write_file (fs w') file_path (resp_content r)\<rparr>))
      else download_loop srv target_path rest w)"

text \<open>Lines 250 to 273.\<close>

definition download_photos :: "server \<Rightarrow> photo_record list \<Rightarrow> pystr \<Rightarrow> world \<Rightarrow> world" where
  "download_photos srv photos target_path w =
     download_loop srv target_path photos
       (if \<not> path_exists (fs w) target_path
        then w\<lparr>logged := logged w @ [Info (ascii ''Creating '' @ target_path)],
                fs := makedirs (fs w) target_path\<rparr>
        else w)"

text \<open>The warnings of the log, to tell whether a run logged one.\<close>

definition is_warning :: "log_entry \<Rightarrow> bool" where
  "is_warning e = (case e of Warning m \<Rightarrow> True | Info m \<Rightarrow> False)"

definition warnings :: "world \<Rightarrow> log_entry list" where
  "warnings w = filter is_warning (logged w)"

text \<open>
  A photo row has been attempted in a state, counted from a run that started with \<open>n\<close>
  requests sent and \<open>l\<close> log entries, when its file exists there, or the run requested
  its URL and logged a warning about a response that was not a success.
\<close>

definition attempted :: "pystr \<Rightarrow> photo_record \<Rightarrow> nat \<Rightarrow> nat \<Rightarrow> world \<Rightarrow> bool" where
  "attempted tp p n l w \<longleftrightarrow>
     path_exists (fs w) (path_join tp (file_name p)) \<or>
     (\<exists>r. status_code r \<noteq> 200 \<and>
        Warning (photo_warning (photo_url p) r) \<in> set (drop l (logged w)) \<and>
        Get (photo_url p) \<in> set (drop n (net w)))"

section \<open>Sample inputs\<close>

text \<open>
  A business entry as the API returns it: price \<^verbatim>\<open>$$\<close>, two categories \<^verbatim>\<open>a\<close> and \<^verbatim>\<open>b\<close>
  that both list the parent category \<^verbatim>\<open>food\<close>, one photo and one review.
\<close>

definition sample_category :: "string \<Rightarrow> json" where
  "sample_category a =
     JObj [(ascii ''alias'', JStr (ascii a)),
           (ascii ''parent_categories'', JArr [JObj [(ascii ''alias'', JStr (ascii ''food''))]])]"

definition sample_entry :: "(pystr \<times> json) list" where
  "sample_entry =
     [(ascii ''alias'', JStr (ascii ''chez-x'')),
      (ascii ''price'', JStr (ascii ''$$'')),
      (ascii ''categories'', JArr [sample_category ''a'', sample_category ''b'']),
      (ascii ''photos'', JArr [JStr (ascii ''http://p/1'')]),
      (ascii ''reviews'', JArr [JObj [(ascii ''text'', JStr (ascii ''good'')), (ascii ''rating'', JNum 4)]])]"

definition sample_row :: business_record where
  "sample_row =
     \<lparr>business_alias = JStr (ascii ''chez-x''),
      business_review_count = JNull,
      business_rating = JNull,
      business_price = 2,
      business_city = JNull,
      business_state = JNull,
      business_postal_code = JNull,
      business_country = JNull,
      business_latitude = JNull,
      business_longitude = JNull,
      business_categories = [JStr (ascii ''a''), JStr (ascii ''b'')],
      business_parent_categories = [JStr (ascii ''food'')]\<rparr>"

text \<open>The same entry with the photos and the reviews present and null.\<close>

definition null_entry :: "(pystr \<times> json) list" where
  "null_entry =
     [(ascii ''photos'', JNull), (ascii ''reviews'', JNull)] @ sample_entry"

text \<open>A stand-in for the digest in the examples.\<close>

definition sample_md5 :: "byte list \<Rightarrow> pystr" where
  "sample_md5 bytes = map unat bytes"

text \<open>
  A page with that one business, and a server that answers the first request with it
  and every later request with a page without businesses.
\<close>

definition sample_page :: json where
  "sample_page =
     JObj [(ascii ''data'', JObj [(ascii ''search'', JObj [(ascii ''business'', JArr [JObj sample_entry])])])]"

definition sample_server :: server where
  "sample_server sent req =
     \<lparr>status_code = 200, resp_text = [], resp_content = [],
      resp_json = Some (if sent = [] then sample_page else JObj [])\<rparr>"

definition sample_review :: review_record where
  "sample_review =
     \<lparr>review_business_alias = JStr (ascii ''chez-x''),
      review_text = JStr (ascii ''good''),
      review_rating = JNum 4\<rparr>"

definition sample_photo :: photo_record where
  "sample_photo =
     \<lparr>photo_business_alias = JStr (ascii ''chez-x''),
      photo_url = ascii ''http://p/1'',
      file_name = ascii ''chez-x_'' @ sample_md5 (utf8 (ascii ''http://p/1'')) @ ascii ''.jpg''\<rparr>"

text \<open>
  An entry with an alias and two photos, the second URL with a character outside ASCII
  (233 is e with an acute accent), a server that answers the first request with the
  page of that entry, and the rows of that entry.
\<close>

definition two_photos_entry :: "(pystr \<times> json) list" where
  "two_photos_entry =
     [(ascii ''alias'', JStr (ascii ''chez-x'')),
      (ascii ''photos'', JArr [JStr (ascii ''http://p/1''), JStr (ascii ''http://p/'' @ [233])])]"

definition two_photos_server :: server where
  "two_photos_server snt req =
     \<lparr>status_code = 200, resp_text = [], resp_content = [],
      resp_json = Some (if snt = []
        then JObj [(ascii ''data'', JObj [(ascii ''search'',
               JObj [(ascii ''business'', JArr [JObj two_photos_entry])])])]
        else JObj [])\<rparr>"

definition bare_row :: business_record where
  "bare_row =
     \<lparr>business_alias = JStr (ascii ''chez-x''),
      business_review_count = JNull,
      business_rating = JNull,
      business_price = 0,
      business_city = JNull,
      business_state = JNull,
      business_postal_code = JNull,
      business_country = JNull,
      business_latitude = JNull,
      business_longitude = JNull,
      business_categories = [],
      business_parent_categories = []\<rparr>"

definition photo_e :: photo_record where
  "photo_e =
     \<lparr>photo_business_alias = JStr (ascii ''chez-x''),
      photo_url = ascii ''http://p/'' @ [233],
      file_name = ascii ''chez-x_'' @ sample_md5 (utf8 (ascii ''http://p/'' @ [233])) @ ascii ''.jpg''\<rparr>"

text \<open>
  A server that answers the second request with status 500, and a response with
  status 200 and an error list.
\<close>

definition failing_server :: server where
  "failing_server snt req =
     (if length snt = 1
      then \<lparr>status_code = 500, resp_text = ascii ''Internal Server Error'', resp_content = [],
             resp_json = None\<rparr>
      else sample_server snt req)"

definition errors_response :: response where
  "errors_response =
     \<lparr>status_code = 200, resp_text = [], resp_content = [],
      resp_json = Some (JObj [(ascii ''errors'', JArr [JStr (ascii ''boom'')])])\<rparr>"

text \<open>
  Two responses with status 200: one whose body is not JSON, one whose body is the JSON
  value \<^verbatim>\<open>null\<close>.
\<close>

definition not_json_response :: response where
  "not_json_response =
     \<lparr>status_code = 200, resp_text = ascii ''<html>Bad Gateway</html>'', resp_content = [],
      resp_json = None\<rparr>"

definition null_response :: response where
  "null_response =
     \<lparr>status_code = 200, resp_text = ascii ''null'', resp_content = [],
      resp_json = Some JNull\<rparr>"

text \<open>
  For \<^verbatim>\<open>download_photos\<close>: an empty file system with nothing sent and nothing logged, a
  photo row, and a server that answers the first request it ever receives with status
  404 and every later request with status 200 and a one-byte body.
\<close>

definition empty_world :: world where
  "empty_world = \<lparr>fs = \<lparr>files = Map.empty, dirs = {}\<rparr>, net = [], logged = []\<rparr>"

definition download_row :: photo_record where
  "download_row =
     \<lparr>photo_business_alias = JStr (ascii ''chez-x''),
      photo_url = ascii ''http://p/1'',
      file_name = ascii ''chez-x_0.jpg''\<rparr>"

definition flaky_server :: server where
  "flaky_server snt req =
     (if snt = []
      then \<lparr>status_code = 404, resp_text = ascii ''Not Found'', resp_content = [],
             resp_json = None\<rparr>
      else \<lparr>status_code = 200, resp_text = [], resp_content = [1], resp_json = None\<rparr>)"

text \<open>
  A second photo row, a server that answers every request with status 200, and the
  empty world once the target directory has been created.
\<close>

definition download_row2 :: photo_record where
  "download_row2 =
     \<lparr>photo_business_alias = JStr (ascii ''chez-y''),
      photo_url = ascii ''http://p/2'',
      file_name = ascii ''chez-y_0.jpg''\<rparr>"

definition ok_server :: server where
  "ok_server snt req =
     \<lparr>status_code = 200, resp_text = [], resp_content = [1], resp_json = None\<rparr>"

definition created_world :: world where
  "created_world =
     \<lparr>fs = \<lparr>files = Map.empty, dirs = {ascii ''photos''}\<rparr>, net = [],
      logged = [Info (ascii ''Creating photos'')]\<rparr>"

section \<open>Basic facts\<close>

lemma length_ascii [simp]: "length (ascii s) = length s"
  by (simp add: ascii_def)

lemma ascii_eq_iff [simp]: "ascii s = ascii t \<longleftrightarrow> s = t"
  by (simp add: ascii_def inj_map_eq_map inj_on_def)

lemma then_do_Inr [simp]: "then_do (Inr v) f = f v"
  by (simp add: then_do_def)

lemma then_do_Inl [simp]: "then_do (Inl e) f = Inl e"
  by (simp add: then_do_def)

lemma then_do_eq_Inr:
  "then_do m f = Inr r \<longleftrightarrow> (\<exists>v. m = Inr v \<and> f v = Inr r)"
  by (cases m) simp_all

lemma py_get_obj:
  "py_get (JObj kvs) k d = Inr (case map_of kvs k of None \<Rightarrow> d | Some v \<Rightarrow> v)"
  by (simp add: py_get_def)

lemma py_get_Inr_obj: "py_get b k d = Inr v \<Longrightarrow> \<exists>kvs. b = JObj kvs"
  by (cases b) (simp_all add: py_get_def)

lemma business_row_sample: "business_row (JObj sample_entry) = Inr sample_row"
  by (simp add: sample_entry_def sample_row_def sample_category_def business_row_def
      price_tier_def get_nested_def categories_of_def parent_categories_of_def py_get_def
      py_len_def py_iter_def set_add_def hashable_def py_eq_def py_key_def)

lemma business_row_null_entry: "business_row (JObj null_entry) = Inr sample_row"
  by (simp add: null_entry_def sample_entry_def sample_row_def sample_category_def
      business_row_def price_tier_def get_nested_def categories_of_def
      parent_categories_of_def py_get_def py_len_def py_iter_def set_add_def hashable_def
      py_eq_def py_key_def)

lemma ascii_Nil [simp]: "ascii [] = []" by (simp add: ascii_def)

lemma ascii_append: "ascii (s @ t) = ascii s @ ascii t" by (simp add: ascii_def)

lemma of_char_less_256: "of_char c < (256::nat)"
  by (metis of_char_of nat_of_char_less_256)

lemma no_surrogate_ascii [simp]: "\<not> list_ex is_surrogate (ascii s)"
proof -
  have "\<not> is_surrogate (of_char c)" for c :: char
    using of_char_less_256 [of c] unfolding is_surrogate_def by linarith
  then show ?thesis
    by (simp add: list_ex_iff ascii_def)
qed

section \<open>Decimal digits and the query\<close>

lemma decimal_str_nat: "decimal (str_nat n) = n"
proof (induction n rule: str_nat.induct)
  case (1 n)
  show ?case
  proof (cases "n < 10")
    case True
    then show ?thesis
      by (subst str_nat.simps) (simp add: decimal_def)
  next
    case False
    with 1 have "decimal (str_nat (n div 10)) = n div 10"
      by simp
    with False show ?thesis
      by (subst str_nat.simps) (simp add: decimal_def)
  qed
qed

lemma str_nat_digits: "d \<in> set (str_nat n) \<Longrightarrow> 48 \<le> d \<and> d \<le> 57"
proof (induction n rule: str_nat.induct)
  case (1 n)
  show ?case
  proof (cases "n < 10")
    case True
    with 1(2) show ?thesis
      by (subst (asm) str_nat.simps) simp
  next
    case False
    from 1(2) False have "d \<in> set (str_nat (n div 10)) \<or> d = 48 + n mod 10"
      by (subst (asm) str_nat.simps) auto
    with 1(1) False show ?thesis
      by auto
  qed
qed

lemma str_nat_inj: "str_nat a = str_nat b \<Longrightarrow> a = b"
proof -
  assume "str_nat a = str_nat b"
  then have "decimal (str_nat a) = decimal (str_nat b)"
    by (rule arg_cong)
  then show "a = b"
    by (simp only: decimal_str_nat)
qed

lemma build_query_offset_inj:
  "build_query category location offset lmt = build_query category location offset' lmt \<Longrightarrow>
     offset = offset'"
  unfolding build_query_def by (simp add: str_nat_inj)

lemma build_query_location_inj:
  "build_query category location offset lmt = build_query category location' offset lmt \<Longrightarrow>
     location = location'"
  unfolding build_query_def by simp

lemma build_query_head:
  "\<exists>selection. \<forall>category location offset lmt.
     build_query category location offset lmt =
       ascii ''{'' @ [10] @ ascii ''        search(''
       @ ascii ''            categories: '' @ [34] @ category @ [34] @ ascii '', ''
       @ ascii ''            location: '' @ [34] @ location @ [34] @ ascii '', ''
       @ ascii ''            offset: '' @ str_nat offset @ ascii '', ''
       @ ascii ''            limit:  '' @ str_nat lmt @ selection"
proof (rule exI [of _ "ascii ''        ) {'' @ [10] @ ascii ''            business {'' @ [10] @ ascii ''                alias'' @ [10] @ ascii ''                review_count'' @ [10] @ ascii ''                rating'' @ [10] @ ascii ''                price'' @ [10] @ ascii ''                location {'' @ [10] @ ascii ''                    city'' @ [10] @ ascii ''                    state'' @ [10] @ ascii ''                    postal_code'' @ [10] @ ascii ''                    country'' @ [10] @ ascii ''                }'' @ [10] @ ascii ''                coordinates {'' @ [10] @ ascii ''                    latitude'' @ [10] @ ascii ''                    longitude'' @ [10] @ ascii ''                }'' @ [10] @ ascii ''                categories {'' @ [10] @ ascii ''                    alias'' @ [10] @ ascii ''                    parent_categories {'' @ [10] @ ascii ''                        alias'' @ [10] @ ascii ''                    }'' @ [10] @ ascii ''                }'' @ [10] @ ascii ''                photos'' @ [10] @ ascii ''                reviews {'' @ [10] @ ascii ''                    text'' @ [10] @ ascii ''                    rating'' @ [10] @ ascii ''                }'' @ [10] @ ascii ''            }'' @ [10] @ ascii ''        }'' @ [10] @ ascii ''    }''"], intro allI)
  fix category location :: pystr and offset lmt :: nat
  show "build_query category location offset lmt =
       ascii ''{'' @ [10] @ ascii ''        search(''
       @ ascii ''            categories: '' @ [34] @ category @ [34] @ ascii '', ''
       @ ascii ''            location: '' @ [34] @ location @ [34] @ ascii '', ''
       @ ascii ''            offset: '' @ str_nat offset @ ascii '', ''
       @ ascii ''            limit:  '' @ str_nat lmt @ ascii ''        ) {'' @ [10] @ ascii ''            business {'' @ [10] @ ascii ''                alias'' @ [10] @ ascii ''                review_count'' @ [10] @ ascii ''                rating'' @ [10] @ ascii ''                price'' @ [10] @ ascii ''                location {'' @ [10] @ ascii ''                    city'' @ [10] @ ascii ''                    state'' @ [10] @ ascii ''                    postal_code'' @ [10] @ ascii ''                    country'' @ [10] @ ascii ''                }'' @ [10] @ ascii ''                coordinates {'' @ [10] @ ascii ''                    latitude'' @ [10] @ ascii ''                    longitude'' @ [10] @ ascii ''                }'' @ [10] @ ascii ''                categories {'' @ [10] @ ascii ''                    alias'' @ [10] @ ascii ''                    parent_categories {'' @ [10] @ ascii ''                        alias'' @ [10] @ ascii ''                    }'' @ [10] @ ascii ''                }'' @ [10] @ ascii ''                photos'' @ [10] @ ascii ''                reviews {'' @ [10] @ ascii ''                    text'' @ [10] @ ascii ''                    rating'' @ [10] @ ascii ''                }'' @ [10] @ ascii ''            }'' @ [10] @ ascii ''        }'' @ [10] @ ascii ''    }''"
    unfolding build_query_def by (simp only: append_assoc)
qed

section \<open>UTF-8\<close>

lemma unat_utf8_char:
  "c < 1114112 \<Longrightarrow>
   map unat (utf8_char c) =
     (if c < 128 then [c]
      else if c < 2048 then [192 + c div 64, 128 + c mod 64]
      else if c < 65536 then [224 + c div 4096, 128 + (c div 64) mod 64, 128 + c mod 64]
      else [240 + c div 262144, 128 + (c div 4096) mod 64, 128 + (c div 64) mod 64,
            128 + c mod 64])"
  unfolding utf8_char_def
  by (simp add: unat_of_nat del: of_nat_add of_nat_numeral)

lemma div_mod_64_eq: "(c::nat) div 64 = d div 64 \<Longrightarrow> c mod 64 = d mod 64 \<Longrightarrow> c = d"
  by (metis div_mult_mod_eq)

lemma div_mod_4096_eq:
  "(c::nat) div 4096 = d div 4096 \<Longrightarrow> c div 64 mod 64 = d div 64 mod 64 \<Longrightarrow>
   c mod 64 = d mod 64 \<Longrightarrow> c = d"
proof -
  assume h: "c div 4096 = d div 4096" "c div 64 mod 64 = d div 64 mod 64" "c mod 64 = d mod 64"
  have "c div 64 div 64 = d div 64 div 64"
    using h(1) by (simp add: div_mult2_eq [symmetric])
  from this h(2) have "c div 64 = d div 64" by (rule div_mod_64_eq)
  from this h(3) show "c = d" by (rule div_mod_64_eq)
qed

lemma div_mod_262144_eq:
  "(c::nat) div 262144 = d div 262144 \<Longrightarrow> c div 4096 mod 64 = d div 4096 mod 64 \<Longrightarrow>
   c div 64 mod 64 = d div 64 mod 64 \<Longrightarrow> c mod 64 = d mod 64 \<Longrightarrow> c = d"
proof -
  assume h: "c div 262144 = d div 262144" "c div 4096 mod 64 = d div 4096 mod 64"
    "c div 64 mod 64 = d div 64 mod 64" "c mod 64 = d mod 64"
  have "c div 4096 div 64 = d div 4096 div 64"
    using h(1) by (simp add: div_mult2_eq [symmetric])
  from this h(2) have "c div 4096 = d div 4096" by (rule div_mod_64_eq)
  from this h(3) h(4) show "c = d" by (rule div_mod_4096_eq)
qed

lemma utf8_nat_prefix:
  fixes c d :: nat
  assumes "c < 1114112" and "d < 1114112"
    and "(if c < 128 then [c]
      else if c < 2048 then [192 + c div 64, 128 + c mod 64]
      else if c < 65536 then [224 + c div 4096, 128 + (c div 64) mod 64, 128 + c mod 64]
      else [240 + c div 262144, 128 + (c div 4096) mod 64, 128 + (c div 64) mod 64,
            128 + c mod 64]) @ us =
     (if d < 128 then [d]
      else if d < 2048 then [192 + d div 64, 128 + d mod 64]
      else if d < 65536 then [224 + d div 4096, 128 + (d div 64) mod 64, 128 + d mod 64]
      else [240 + d div 262144, 128 + (d div 4096) mod 64, 128 + (d div 64) mod 64,
            128 + d mod 64]) @ vs"
  shows "c = d"
  using assms
  apply (clarsimp split: if_splits)
  apply (erule (1) div_mod_64_eq | erule (2) div_mod_4096_eq | erule (3) div_mod_262144_eq | arith)+
  done

lemma utf8_char_prefix:
  assumes c: "c < 1114112" and d: "d < 1114112" and eq: "utf8_char c @ xs = utf8_char d @ ys"
  shows "c = d \<and> xs = ys"
proof -
  from eq have "map unat (utf8_char c @ xs) = map unat (utf8_char d @ ys)"
    by (rule arg_cong)
  then have "map unat (utf8_char c) @ map unat xs = map unat (utf8_char d) @ map unat ys"
    by simp
  then have "c = d"
    unfolding unat_utf8_char [OF c] unat_utf8_char [OF d] by (rule utf8_nat_prefix [OF c d])
  with eq show ?thesis
    by simp
qed

lemma utf8_char_not_Nil: "utf8_char c \<noteq> []"
  by (simp add: utf8_char_def)

lemma utf8_inj:
  "list_all code_point s \<Longrightarrow> list_all code_point t \<Longrightarrow> utf8 s = utf8 t \<Longrightarrow> s = t"
proof (induction s arbitrary: t)
  case Nil
  then show ?case
    by (cases t) (simp_all add: utf8_def utf8_char_not_Nil)
next
  case (Cons c s)
  show ?case
  proof (cases t)
    case Nil
    with Cons.prems show ?thesis
      by (simp add: utf8_def utf8_char_not_Nil)
  next
    case (Cons d t')
    with Cons.prems have "utf8_char c @ utf8 s = utf8_char d @ utf8 t'"
      and "c < 1114112" and "d < 1114112"
      by (simp_all add: utf8_def code_point_def)
    then have "c = d \<and> utf8 s = utf8 t'"
      using utf8_char_prefix by blast
    with Cons.IH [of t'] Cons.prems Cons show ?thesis
      by simp
  qed
qed

lemma code_point_ascii [simp]: "list_all code_point (ascii s)"
proof -
  have "code_point (of_char c)" for c :: char
    using of_char_less_256 [of c] unfolding code_point_def by linarith
  then show ?thesis
    by (simp add: list_all_iff ascii_def)
qed

section \<open>Sets of aliases\<close>









section \<open>The rows of one business\<close>

lemma encode_utf8_Inr: "encode_utf8 u = Inr bytes \<Longrightarrow> bytes = utf8 u"
  by (simp add: encode_utf8_def split: if_splits)

lemma py_add_str_Inr: "py_add_str v s = Inr r \<longleftrightarrow> (\<exists>a. v = JStr a \<and> r = a @ s)"
  by (cases v) (auto simp: py_add_str_def)

lemma photo_loop_named:
  "photo_loop md5 business l photos = Inr photos' \<Longrightarrow>
   \<exists>new. photos' = photos @ new \<and> map (\<lambda>p. JStr (photo_url p)) new = l \<and>
     (\<forall>p\<in>set new. named md5 business p)"
proof (induction l arbitrary: photos)
  case Nil
  then show ?case by simp
next
  case (Cons photo rest)
  from Cons.prems obtain v where v: "py_get business (ascii ''alias'') JNull = Inr v"
    by (auto simp: then_do_eq_Inr)
  with Cons.prems obtain a where va: "v = JStr a"
    by (auto simp: then_do_eq_Inr py_add_str_Inr)
  from Cons.prems v va obtain u where u: "photo = JStr u"
    by (cases photo) (auto simp: py_add_str_def)
  define row where "row = \<lparr>photo_business_alias = JStr a, photo_url = u,
    file_name = (a @ ascii ''_'') @ md5 (utf8 u) @ ascii ''.jpg''\<rparr>"
  from Cons.prems v va u have enc: "encode_utf8 u = Inr (utf8 u)"
    and rest: "photo_loop md5 business rest (photos @ [row]) = Inr photos'"
    by (auto simp: then_do_eq_Inr py_add_str_def row_def dest: encode_utf8_Inr)
  from Cons.IH [OF rest] obtain new where new: "photos' = (photos @ [row]) @ new"
    "map (\<lambda>p. JStr (photo_url p)) new = rest" "\<forall>p\<in>set new. named md5 business p"
    by blast
  have row: "named md5 business row"
    using v va enc by (simp add: named_def row_def)
  show ?case
  proof (intro exI conjI)
    show "photos' = photos @ (row # new)"
      using new(1) by simp
    show "map (\<lambda>p. JStr (photo_url p)) (row # new) = photo # rest"
      using new(2) u by (simp add: row_def)
    show "\<forall>p\<in>set (row # new). named md5 business p"
      using new(3) row by simp
  qed
qed

lemma review_loop_rows:
  "review_loop business l reviews = Inr reviews' \<Longrightarrow>
   \<exists>new. reviews' = reviews @ new \<and> length new = length l \<and>
     (\<forall>r\<in>set new. py_get business (ascii ''alias'') JNull = Inr (review_business_alias r))"
proof (induction l arbitrary: reviews)
  case Nil
  then show ?case by simp
next
  case (Cons review rest)
  from Cons.prems obtain a x y where a: "py_get business (ascii ''alias'') JNull = Inr a"
    and rest: "review_loop business rest
        (reviews @ [\<lparr>review_business_alias = a, review_text = x, review_rating = y\<rparr>]) = Inr reviews'"
    by (auto simp: then_do_eq_Inr)
  let ?r = "\<lparr>review_business_alias = a, review_text = x, review_rating = y\<rparr>"
  from Cons.IH [OF rest] obtain new where new: "reviews' = (reviews @ [?r]) @ new"
    "length new = length rest"
    "\<forall>r\<in>set new. py_get business (ascii ''alias'') JNull = Inr (review_business_alias r)"
    by blast
  have "reviews' = reviews @ (?r # new)"
    using new(1) by simp
  moreover have "length (?r # new) = length (review # rest)"
    using new(2) by simp
  moreover have "\<forall>r\<in>set (?r # new). py_get business (ascii ''alias'') JNull = Inr (review_business_alias r)"
    using new(3) a by simp
  ultimately show ?case by blast
qed

lemma business_row_alias:
  "business_row business = Inr row \<Longrightarrow>
   py_get business (ascii ''alias'') JNull = Inr (business_alias row)"
  by (auto simp: business_row_def then_do_eq_Inr)

lemma process_business_rows:
  assumes "process_business md5 business (businesses, reviews, photos) = Inr t'"
  shows "\<exists>row rnew pnew. business_row business = Inr row \<and>
     t' = (businesses @ [row], reviews @ rnew, photos @ pnew) \<and>
     (\<forall>r\<in>set rnew. review_business_alias r = business_alias row) \<and>
     (\<forall>p\<in>set pnew. photo_business_alias p = business_alias row \<and> named md5 business p)"
proof -
  from assms obtain row photos' reviews' where row: "business_row business = Inr row"
    and ph: "add_photos md5 business photos = Inr photos'"
    and rv: "add_reviews business reviews = Inr reviews'"
    and t': "t' = (businesses @ [row], reviews', photos')"
    by (auto simp: then_do_eq_Inr)
  from ph obtain pl where "photo_loop md5 business pl photos = Inr photos'"
    by (auto simp: add_photos_def then_do_eq_Inr)
  from photo_loop_named [OF this] obtain pnew where pnew: "photos' = photos @ pnew"
    "\<forall>p\<in>set pnew. named md5 business p"
    by blast
  from rv obtain rl where "review_loop business rl reviews = Inr reviews'"
    by (auto simp: add_reviews_def then_do_eq_Inr)
  from review_loop_rows [OF this] obtain rnew where rnew: "reviews' = reviews @ rnew"
    "\<forall>r\<in>set rnew. py_get business (ascii ''alias'') JNull = Inr (review_business_alias r)"
    by blast
  note al = business_row_alias [OF row]
  have "\<forall>r\<in>set rnew. review_business_alias r = business_alias row"
    using rnew(2) al by auto
  moreover have "\<forall>p\<in>set pnew. photo_business_alias p = business_alias row \<and> named md5 business p"
  proof
    fix p assume "p \<in> set pnew"
    with pnew(2) have n: "named md5 business p" by blast
    then have "photo_business_alias p = business_alias row"
      using al by (auto simp: named_def)
    with n show "photo_business_alias p = business_alias row \<and> named md5 business p" by blast
  qed
  ultimately show ?thesis
    using row t' pnew(1) rnew(1) by blast
qed

lemma business_loop_invariant:
  assumes step: "\<forall>business t t'. P t \<and> process_business md5 business t = Inr t' \<longrightarrow> P t'"
  shows "P t \<Longrightarrow> business_loop md5 l t = Inr t' \<Longrightarrow> P t'"
proof (induction l arbitrary: t)
  case Nil
  then show ?case by simp
next
  case (Cons b l)
  from Cons.prems(2) obtain t1 where t1: "process_business md5 b t = Inr t1"
    and rest: "business_loop md5 l t1 = Inr t'"
    by (auto simp: then_do_eq_Inr)
  from step Cons.prems(1) t1 have "P t1" by blast
  with Cons.IH rest show ?case by blast
qed

lemma normalize_page_invariant:
  assumes step: "\<forall>business t t'. P t \<and> process_business md5 business t = Inr t' \<longrightarrow> P t'"
    and "P t" and "normalize_page md5 data t = Inr t'"
  shows "P t'"
proof -
  from assms(3) obtain l where "business_loop md5 l t = Inr t'"
    by (auto simp: normalize_page_def then_do_eq_Inr)
  with business_loop_invariant [of P md5, OF step] assms(2) show ?thesis by blast
qed

lemma offset_loop_invariant:
  assumes step: "\<forall>business t t'. P t \<and> process_business md5 business t = Inr t' \<longrightarrow> P t'"
  shows "P t \<Longrightarrow> offset_loop srv k md5 category location offs sent t = (sent', Inr t') \<Longrightarrow> P t'"
proof (induction offs arbitrary: sent t)
  case Nil
  then show ?case by simp
next
  case (Cons offset offs)
  from Cons.prems(2) obtain s1 data t1 where
    "normalize_page md5 data t = Inr t1"
    "offset_loop srv k md5 category location offs s1 t1 = (sent', Inr t')"
    by (auto split: prod.splits sum.splits)
  with normalize_page_invariant [of P md5, OF step Cons.prems(1)] Cons.IH show ?case by blast
qed

lemma location_loop_invariant:
  assumes step: "\<forall>business t t'. P t \<and> process_business md5 business t = Inr t' \<longrightarrow> P t'"
  shows "P t \<Longrightarrow> location_loop srv k md5 category locations sent t = (sent', Inr t') \<Longrightarrow> P t'"
proof (induction locations arbitrary: sent t)
  case Nil
  then show ?case by simp
next
  case (Cons location locations)
  from Cons.prems(2) obtain s1 t1 where
    "offset_loop srv k md5 category location (py_range 0 count limit) sent t = (s1, Inr t1)"
    "location_loop srv k md5 category locations s1 t1 = (sent', Inr t')"
    by (auto split: prod.splits sum.splits)
  with offset_loop_invariant [of P md5, OF step Cons.prems(1)] Cons.IH show ?case by blast
qed

lemma get_yelp_data_invariant:
  assumes "P ([], [], [])"
    and "\<forall>business t t'. P t \<and> process_business md5 business t = Inr t' \<longrightarrow> P t'"
    and "get_yelp_data srv k md5 sent locations category = (sent', Inr t)"
  shows "P t"
  using location_loop_invariant [of P md5 "([], [], [])", OF assms(2) assms(1)] assms(3)
  unfolding get_yelp_data_def by blast

section \<open>The pages of a harvest\<close>

lemma offset_loop_page_loop:
  "offset_loop srv k md5 category location offs snt t =
   page_loop srv k md5 category (map (\<lambda>offset. (location, offset)) offs) snt t"
proof (induction offs arbitrary: snt t)
  case Nil
  then show ?case by simp
next
  case (Cons offset offs)
  then show ?case
    by (simp add: scheduled_request_def split: prod.splits sum.splits)
qed

lemma page_loop_append:
  "page_loop srv k md5 category (xs @ ys) snt t =
   (case page_loop srv k md5 category xs snt t of
      (snt', Inl e) \<Rightarrow> (snt', Inl e)
    | (snt', Inr t') \<Rightarrow> page_loop srv k md5 category ys snt' t')"
proof (induction xs arbitrary: snt t)
  case Nil
  then show ?case by simp
next
  case (Cons x xs)
  then show ?case
    by (simp split: prod.splits sum.splits)
qed

lemma location_loop_page_loop:
  "location_loop srv k md5 category locations snt t =
   page_loop srv k md5 category (schedule locations) snt t"
proof (induction locations arbitrary: snt t)
  case Nil
  then show ?case by (simp add: schedule_def)
next
  case (Cons location locations)
  have "schedule (location # locations) =
      map (\<lambda>offset. (location, offset)) (py_range 0 count limit) @ schedule locations"
    by (simp add: schedule_def)
  with Cons show ?case
    by (simp add: page_loop_append offset_loop_page_loop split: prod.splits sum.splits)
qed

lemma photo_loop_frame:
  "photo_loop md5 business l photos =
   (case photo_loop md5 business l [] of Inl e \<Rightarrow> Inl e | Inr d \<Rightarrow> Inr (photos @ d))"
proof (induction l arbitrary: photos)
  case Nil
  then show ?case by simp
next
  case (Cons photo rest)
  show ?case
  proof (cases "py_get business (ascii ''alias'') JNull")
    case (Inl e)
    then show ?thesis by simp
  next
    case v: (Inr v)
    show ?thesis
    proof (cases "py_add_str v (ascii ''_'')")
      case (Inl e)
      with v show ?thesis by simp
    next
      case pre: (Inr pre)
      show ?thesis
      proof (cases photo)
        case (JStr u)
        show ?thesis
        proof (cases "encode_utf8 u")
          case (Inl e)
          with v pre JStr show ?thesis by simp
        next
          case (Inr bytes)
          define row where "row = \<lparr>photo_business_alias = v, photo_url = u,
            file_name = pre @ md5 bytes @ ascii ''.jpg''\<rparr>"
          have 1: "photo_loop md5 business (photo # rest) photos =
              photo_loop md5 business rest (photos @ [row])"
            using v pre JStr Inr by (simp add: row_def)
          have 2: "photo_loop md5 business (photo # rest) [] =
              photo_loop md5 business rest [row]"
            using v pre JStr Inr by (simp add: row_def)
          show ?thesis
            unfolding 1 2
            by (subst Cons.IH [of "photos @ [row]"], subst Cons.IH [of "[row]"])
              (simp split: sum.splits)
        qed
      qed (use v pre in simp_all)
    qed
  qed
qed

lemma review_loop_frame:
  "review_loop business l reviews =
   (case review_loop business l [] of Inl e \<Rightarrow> Inl e | Inr d \<Rightarrow> Inr (reviews @ d))"
proof (induction l arbitrary: reviews)
  case Nil
  then show ?case by simp
next
  case (Cons review rest)
  show ?case
  proof (cases "py_get business (ascii ''alias'') JNull")
    case (Inl e)
    then show ?thesis by simp
  next
    case v: (Inr v)
    show ?thesis
    proof (cases "py_get review (ascii ''text'') JNull")
      case (Inl e)
      with v show ?thesis by simp
    next
      case x: (Inr x)
      show ?thesis
      proof (cases "py_get review (ascii ''rating'') JNull")
        case (Inl e)
        with v x show ?thesis by simp
      next
        case (Inr y)
        define row where "row = \<lparr>review_business_alias = v, review_text = x, review_rating = y\<rparr>"
        have 1: "review_loop business (review # rest) reviews =
            review_loop business rest (reviews @ [row])"
          using v x Inr by (simp add: row_def)
        have 2: "review_loop business (review # rest) [] = review_loop business rest [row]"
          using v x Inr by (simp add: row_def)
        show ?thesis
          unfolding 1 2
          by (subst Cons.IH [of "reviews @ [row]"], subst Cons.IH [of "[row]"])
            (simp split: sum.splits)
      qed
    qed
  qed
qed

lemma process_business_frame:
  "process_business md5 business t =
   (case process_business md5 business ([], [], []) of
      Inl e \<Rightarrow> Inl e | Inr d \<Rightarrow> Inr (append_tables t d))"
proof -
  obtain bs rs ps where t: "t = (bs, rs, ps)"
    by (cases t) auto
  have ph: "add_photos md5 business ps =
      (case add_photos md5 business [] of Inl e \<Rightarrow> Inl e | Inr d \<Rightarrow> Inr (ps @ d))"
    unfolding add_photos_def
    by (subst photo_loop_frame) (simp add: then_do_def split: sum.splits)
  have rv: "add_reviews business rs =
      (case add_reviews business [] of Inl e \<Rightarrow> Inl e | Inr d \<Rightarrow> Inr (rs @ d))"
    unfolding add_reviews_def
    by (subst review_loop_frame) (simp add: then_do_def split: sum.splits)
  show ?thesis
    unfolding t process_business.simps
    by (subst ph, subst rv) (simp add: then_do_def split: sum.splits)
qed

lemma append_tables_assoc:
  "append_tables (append_tables a b) c = append_tables a (append_tables b c)"
  by (cases a, cases b, cases c) simp

lemma append_tables_empty [simp]:
  "append_tables ([], [], []) t = t" "append_tables t ([], [], []) = t"
  by (cases t, simp)+

lemma business_loop_frame:
  "business_loop md5 l t =
   (case business_loop md5 l ([], [], []) of
      Inl e \<Rightarrow> Inl e | Inr d \<Rightarrow> Inr (append_tables t d))"
proof (induction l arbitrary: t)
  case Nil
  then show ?case by simp
next
  case (Cons b l)
  show ?case
  proof (cases "process_business md5 b ([], [], [])")
    case (Inl e)
    then show ?thesis
      by (simp add: process_business_frame [of md5 b t] del: process_business.simps)
  next
    case (Inr d)
    then have 1: "business_loop md5 (b # l) t = business_loop md5 l (append_tables t d)"
      and 2: "business_loop md5 (b # l) ([], [], []) = business_loop md5 l d"
      by (simp_all add: process_business_frame [of md5 b t] del: process_business.simps)
    show ?thesis
      unfolding 1 2
      by (subst Cons.IH [of "append_tables t d"], subst Cons.IH [of d])
        (simp add: append_tables_assoc split: sum.splits)
  qed
qed

lemma normalize_page_frame:
  "normalize_page md5 data t =
   (case normalize_page md5 data ([], [], []) of
      Inl e \<Rightarrow> Inl e | Inr d \<Rightarrow> Inr (append_tables t d))"
  unfolding normalize_page_def
  by (subst business_loop_frame) (simp add: then_do_def split: sum.splits)

lemma response_at_0 [simp]:
  "response_at srv k c snt (x # rest) 0 = srv snt (scheduled_request k c x)"
  by (simp add: response_at_def)

lemma response_at_Suc [simp]:
  "response_at srv k c snt (x # rest) (Suc i) =
   response_at srv k c (snt @ [scheduled_request k c x]) rest i"
  by (simp add: response_at_def)

lemma page_at_Suc [simp]:
  "page_at srv k md5 c snt (x # rest) (Suc i) =
   page_at srv k md5 c (snt @ [scheduled_request k c x]) rest i"
  by (simp add: page_at_def)

lemma page_at_0:
  "page_at srv k md5 c snt (x # rest) 0 =
   then_do (check_response (srv snt (scheduled_request k c x))) (\<lambda>data.
     normalize_page md5 data ([], [], []))"
  by (simp add: page_at_def)

lemma page_loop_Cons_Inr:
  assumes "page_loop srv k md5 c (x # rest) snt t = (snt', Inr t')"
  shows "\<exists>d. page_at srv k md5 c snt (x # rest) 0 = Inr d \<and>
     page_loop srv k md5 c rest (snt @ [scheduled_request k c x]) (append_tables t d) = (snt', Inr t')"
proof -
  from assms obtain data t1 where data: "check_response (srv snt (scheduled_request k c x)) = Inr data"
    and t1: "normalize_page md5 data t = Inr t1"
    and rest: "page_loop srv k md5 c rest (snt @ [scheduled_request k c x]) t1 = (snt', Inr t')"
    by (auto simp: fetch_page_def split: sum.splits)
  from t1 obtain d where d: "normalize_page md5 data ([], [], []) = Inr d" and "t1 = append_tables t d"
    by (subst (asm) normalize_page_frame) (auto split: sum.splits)
  with data rest show ?thesis
    by (simp add: page_at_0)
qed

lemma page_loop_Inr:
  "page_loop srv k md5 c pages snt t = (snt', Inr t') \<Longrightarrow>
   snt' = snt @ map (scheduled_request k c) pages \<and>
   (\<exists>ds. length ds = length pages \<and>
      (\<forall>i<length pages. page_at srv k md5 c snt pages i = Inr (ds ! i)) \<and>
      t' = foldl append_tables t ds)"
proof (induction pages arbitrary: snt t)
  case Nil
  then show ?case by simp
next
  case (Cons x rest)
  from page_loop_Cons_Inr [OF Cons.prems] obtain d where
    d: "page_at srv k md5 c snt (x # rest) 0 = Inr d"
    and rest: "page_loop srv k md5 c rest (snt @ [scheduled_request k c x]) (append_tables t d) = (snt', Inr t')"
    by blast
  from Cons.IH [OF rest] obtain ds where snt': "snt' = (snt @ [scheduled_request k c x]) @ map (scheduled_request k c) rest"
    and len: "length ds = length rest"
    and pages: "\<forall>i<length rest. page_at srv k md5 c (snt @ [scheduled_request k c x]) rest i = Inr (ds ! i)"
    and t': "t' = foldl append_tables (append_tables t d) ds"
    by blast
  have "\<forall>i<length (x # rest). page_at srv k md5 c snt (x # rest) i = Inr ((d # ds) ! i)"
    using d pages by (simp add: All_less_Suc2)
  moreover have "length (d # ds) = length (x # rest)"
    using len by simp
  moreover have "t' = foldl append_tables t (d # ds)"
    using t' by simp
  ultimately have "\<exists>ds. length ds = length (x # rest) \<and>
      (\<forall>i<length (x # rest). page_at srv k md5 c snt (x # rest) i = Inr (ds ! i)) \<and>
      t' = foldl append_tables t ds"
    by (intro exI [of _ "d # ds"] conjI)
  with snt' show ?case by simp
qed

lemma page_loop_Inl:
  "page_loop srv k md5 c pages snt t = (snt', Inl e) \<Longrightarrow>
   \<exists>n<length pages. snt' = snt @ map (scheduled_request k c) (take (Suc n) pages) \<and>
      page_at srv k md5 c snt pages n = Inl e \<and>
      (\<forall>i<n. \<exists>d. page_at srv k md5 c snt pages i = Inr d)"
proof (induction pages arbitrary: snt t)
  case Nil
  then show ?case by simp
next
  case (Cons x rest)
  let ?req = "scheduled_request k c x"
  show ?case
  proof (cases "check_response (srv snt ?req)")
    case (Inl e')
    with Cons.prems have "snt' = snt @ [?req]" "e' = e"
      by (simp_all add: fetch_page_def)
    with Inl have "snt' = snt @ map (scheduled_request k c) (take (Suc 0) (x # rest)) \<and>
        page_at srv k md5 c snt (x # rest) 0 = Inl e \<and>
        (\<forall>i<0. \<exists>d. page_at srv k md5 c snt (x # rest) i = Inr d)"
      by (simp add: page_at_0)
    then show ?thesis
      by (intro exI [of _ 0]) simp
  next
    case data: (Inr data)
    show ?thesis
    proof (cases "normalize_page md5 data ([], [], [])")
      case (Inl e')
      then have "normalize_page md5 data t = Inl e'"
        by (subst normalize_page_frame) simp
      with Cons.prems data have "snt' = snt @ [?req]" "e' = e"
        by (simp_all add: fetch_page_def)
      with data Inl have "snt' = snt @ map (scheduled_request k c) (take (Suc 0) (x # rest)) \<and>
          page_at srv k md5 c snt (x # rest) 0 = Inl e \<and>
          (\<forall>i<0. \<exists>d. page_at srv k md5 c snt (x # rest) i = Inr d)"
        by (simp add: page_at_0)
      then show ?thesis
        by (intro exI [of _ 0]) simp
    next
      case (Inr d)
      then have "normalize_page md5 data t = Inr (append_tables t d)"
        by (subst normalize_page_frame) simp
      with Cons.prems data have rest: "page_loop srv k md5 c rest (snt @ [?req]) (append_tables t d) = (snt', Inl e)"
        by (simp add: fetch_page_def)
      from Cons.IH [OF rest] obtain n where n: "n < length rest"
        and snt': "snt' = (snt @ [?req]) @ map (scheduled_request k c) (take (Suc n) rest)"
        and fail: "page_at srv k md5 c (snt @ [?req]) rest n = Inl e"
        and ok: "\<forall>i<n. \<exists>d. page_at srv k md5 c (snt @ [?req]) rest i = Inr d"
        by blast
      have first: "page_at srv k md5 c snt (x # rest) 0 = Inr d"
        using data Inr by (simp add: page_at_0)
      have "Suc n < length (x # rest) \<and>
          snt' = snt @ map (scheduled_request k c) (take (Suc (Suc n)) (x # rest)) \<and>
          page_at srv k md5 c snt (x # rest) (Suc n) = Inl e \<and>
          (\<forall>i<Suc n. \<exists>d. page_at srv k md5 c snt (x # rest) i = Inr d)"
        using n snt' fail ok first by (simp add: All_less_Suc2 del: split_paired_Ex)
      then show ?thesis
        by (intro exI [of _ "Suc n"]) simp
    qed
  qed
qed

section \<open>The sample run\<close>

lemma offsets: "py_range 0 count limit = [0, 50, 100, 150]"
  by (simp add: py_range_def count_def limit_def upt_rec)

lemma process_sample:
  "process_business sample_md5 (JObj sample_entry) ([], [], []) = Inr ([sample_row], [sample_review], [sample_photo])"
  by (simp add: business_row_sample [unfolded sample_entry_def] add_photos_def add_reviews_def py_get_obj py_iter_def py_or_def truthy_def
     sample_entry_def py_add_str_def encode_utf8_def sample_photo_def sample_review_def ascii_append [symmetric])

lemma normalize_sample:
  "normalize_page sample_md5 sample_page ([], [], []) = Inr ([sample_row], [sample_review], [sample_photo])"
  by (simp add: normalize_page_def sample_page_def py_get_obj py_iter_def process_sample
      del: process_business.simps)

lemma normalize_empty: "normalize_page md5 (JObj []) t = Inr t"
  by (simp add: normalize_page_def py_get_obj py_iter_def)

lemma check_sample: "check_response (sample_server sent req) = Inr (if sent = [] then sample_page else JObj [])"
  by (simp add: check_response_def sample_server_def py_in_def sample_page_def)

lemma harvest_sample:
  "get_yelp_data sample_server None sample_md5 [] [ascii ''Paris''] (ascii ''restaurants'') =
     (map (page_request None (ascii ''restaurants'') (ascii ''Paris'')) [0, 50, 100, 150],
      Inr ([sample_row], [sample_review], [sample_photo]))"
  by (simp add: get_yelp_data_def offsets fetch_page_def check_sample normalize_sample normalize_empty)

lemma business_row_two_photos: "business_row (JObj two_photos_entry) = Inr bare_row"
  by (simp add: two_photos_entry_def bare_row_def business_row_def
      price_tier_def get_nested_def categories_of_def parent_categories_of_def py_get_def
      py_len_def py_iter_def set_add_def hashable_def py_eq_def py_key_def)

lemma process_two_photos:
  "process_business sample_md5 (JObj two_photos_entry) ([], [], []) =
     Inr ([bare_row], [], [sample_photo, photo_e])"
  by (simp add: business_row_two_photos [unfolded two_photos_entry_def] add_photos_def
      add_reviews_def py_get_obj py_iter_def py_or_def truthy_def two_photos_entry_def
      py_add_str_def encode_utf8_def sample_photo_def photo_e_def is_surrogate_def
      ascii_append [symmetric])

lemma harvest_two_photos:
  "get_yelp_data two_photos_server None sample_md5 [] [ascii ''Paris''] (ascii ''restaurants'') =
     (map (page_request None (ascii ''restaurants'') (ascii ''Paris'')) [0, 50, 100, 150],
      Inr ([bare_row], [], [sample_photo, photo_e]))"
  by (simp add: get_yelp_data_def offsets fetch_page_def check_response_def two_photos_server_def
      py_in_def normalize_page_def py_get_obj py_iter_def process_two_photos normalize_empty
      del: process_business.simps)

lemma inj_sample_md5: "inj sample_md5"
  unfolding sample_md5_def by (rule injI) (simp add: inj_map_eq_map)

lemma schedule_Paris:
  "schedule [ascii ''Paris''] =
     [(ascii ''Paris'', 0), (ascii ''Paris'', 50), (ascii ''Paris'', 100), (ascii ''Paris'', 150)]"
  by (simp add: schedule_def offsets)

lemma offsets_multiples:
  "py_range 0 count limit = filter (\<lambda>offset. limit dvd offset) [0..<count]"
  by code_simp

lemma get_yelp_data_page_loop:
  "get_yelp_data srv k md5 snt locations category =
   page_loop srv k md5 category (schedule locations) snt ([], [], [])"
  by (simp add: get_yelp_data_def location_loop_page_loop)

text \<open>What lies beside the two failures of a fetch and the absent business list.\<close>

lemma check_response_not_json:
  "status_code r = 200 \<Longrightarrow> resp_json r = None \<Longrightarrow> check_response r = Inl JSONDecodeError"
  by (simp add: check_response_def)

lemma check_response_null:
  "status_code r = 200 \<Longrightarrow> resp_json r = Some JNull \<Longrightarrow> check_response r = Inl TypeError"
  by (simp add: check_response_def py_in_def)

lemma normalize_page_business_null:
  "map_of kvs (ascii ''data'') = Some (JObj d) \<Longrightarrow> map_of d (ascii ''search'') = Some (JObj s) \<Longrightarrow>
   map_of s (ascii ''business'') = Some JNull \<Longrightarrow>
   normalize_page md5 (JObj kvs) t = Inl TypeError"
  by (simp add: normalize_page_def py_get_obj py_iter_def)

lemma normalize_page_data_null:
  "map_of kvs (ascii ''data'') = Some JNull \<Longrightarrow>
   normalize_page md5 (JObj kvs) t = Inl AttributeError"
  by (simp add: normalize_page_def py_get_obj py_get_def)

section \<open>The download loop\<close>

lemma download_loop_append:
  "download_loop srv tp (xs @ ys) w = download_loop srv tp ys (download_loop srv tp xs w)"
  by (induction xs arbitrary: w) (simp_all add: Let_def)

lemma download_loop_exists:
  "path_exists (fs w) (path_join tp (file_name photo)) \<Longrightarrow>
   download_loop srv tp (photo # rest) w = download_loop srv tp rest w"
  by simp

lemma download_loop_failed:
  "\<not> path_exists (fs w) (path_join tp (file_name photo)) \<Longrightarrow>
   status_code (srv (net w) (Get (photo_url photo))) \<noteq> 200 \<Longrightarrow>
   download_loop srv tp (photo # rest) w =
     download_loop srv tp rest
       (w\<lparr>net := net w @ [Get (photo_url photo)],
          logged := logged w @
            [Warning (photo_warning (photo_url photo) (srv (net w) (Get (photo_url photo))))]\<rparr>)"
  by (simp add: Let_def)

lemma download_loop_written:
  "\<not> path_exists (fs w) (path_join tp (file_name photo)) \<Longrightarrow>
   status_code (srv (net w) (Get (photo_url photo))) = 200 \<Longrightarrow>
   download_loop srv tp (photo # rest) w =
     download_loop srv tp rest
       (w\<lparr>net := net w @ [Get (photo_url photo)],
          fs := write_file (fs w) (path_join tp (file_name photo))
            (resp_content (srv (net w) (Get (photo_url photo))))\<rparr>)"
  by (simp add: Let_def)

lemma download_loop_cases:
  obtains (skipped) "path_exists (fs w) (path_join tp (file_name photo))"
      "download_loop srv tp (photo # rest) w = download_loop srv tp rest w"
    | (failed) w' where "\<not> path_exists (fs w) (path_join tp (file_name photo))"
      "status_code (srv (net w) (Get (photo_url photo))) \<noteq> 200"
      "fs w' = fs w" "net w' = net w @ [Get (photo_url photo)]"
      "logged w' = logged w @
         [Warning (photo_warning (photo_url photo) (srv (net w) (Get (photo_url photo))))]"
      "download_loop srv tp (photo # rest) w = download_loop srv tp rest w'"
    | (written) w' where "\<not> path_exists (fs w) (path_join tp (file_name photo))"
      "status_code (srv (net w) (Get (photo_url photo))) = 200"
      "fs w' = write_file (fs w) (path_join tp (file_name photo))
         (resp_content (srv (net w) (Get (photo_url photo))))"
      "net w' = net w @ [Get (photo_url photo)]" "logged w' = logged w"
      "download_loop srv tp (photo # rest) w = download_loop srv tp rest w'"
proof (cases "path_exists (fs w) (path_join tp (file_name photo))")
  case True
  then show ?thesis
    using skipped by simp
next
  case False
  show ?thesis
  proof (cases "status_code (srv (net w) (Get (photo_url photo))) = 200")
    case True
    show ?thesis
      by (rule written [OF False True _ _ _
            download_loop_written [where srv = srv and rest = rest, OF False True]]) simp_all
  next
    case no: False
    show ?thesis
      by (rule failed [OF False no _ _ _
            download_loop_failed [where srv = srv and rest = rest, OF False no]]) simp_all
  qed
qed

lemma files_kept:
  "files (fs w) p = Some c \<Longrightarrow> files (fs (download_loop srv tp ps w)) p = Some c"
proof (induction ps arbitrary: w)
  case Nil
  then show ?case by simp
next
  case (Cons photo rest)
  show ?case
  proof (cases rule: download_loop_cases [of w tp photo srv rest])
    case skipped
    with Cons show ?thesis by simp
  next
    case (failed w')
    with Cons show ?thesis by simp
  next
    case (written w')
    from written(1) Cons.prems have "p \<noteq> path_join tp (file_name photo)"
      by (auto simp: path_exists_def)
    with written(3) Cons.prems have "files (fs w') p = Some c"
      by (simp add: write_file_def)
    with Cons.IH written(6) show ?thesis by simp
  qed
qed

lemma dirs_kept: "dirs (fs (download_loop srv tp ps w)) = dirs (fs w)"
proof (induction ps arbitrary: w)
  case Nil
  then show ?case by simp
next
  case (Cons photo rest)
  show ?case
  proof (cases rule: download_loop_cases [of w tp photo srv rest])
    case skipped
    with Cons show ?thesis by simp
  next
    case (failed w')
    with Cons show ?thesis by simp
  next
    case (written w')
    with Cons show ?thesis by (simp add: write_file_def)
  qed
qed

lemma exists_kept:
  "path_exists (fs w) p \<Longrightarrow> path_exists (fs (download_loop srv tp ps w)) p"
  unfolding path_exists_def using files_kept [of w p _ srv tp ps] dirs_kept [of srv tp ps w]
  by auto

lemma warnings_grow: "length (warnings w) \<le> length (warnings (download_loop srv tp ps w))"
proof (induction ps arbitrary: w)
  case Nil
  then show ?case by simp
next
  case (Cons photo rest)
  show ?case
  proof (cases rule: download_loop_cases [of w tp photo srv rest])
    case skipped
    with Cons show ?thesis by simp
  next
    case (failed w')
    then have "length (warnings w) \<le> length (warnings w')"
      by (simp add: warnings_def)
    with Cons.IH [of w'] failed(6) show ?thesis by simp
  next
    case (written w')
    then have "warnings w' = warnings w"
      by (simp add: warnings_def)
    with Cons.IH [of w'] written(6) show ?thesis by simp
  qed
qed

lemma no_warning_all_exist:
  "warnings (download_loop srv tp ps w) = warnings w \<Longrightarrow>
   \<forall>p\<in>set ps. path_exists (fs (download_loop srv tp ps w)) (path_join tp (file_name p))"
proof (induction ps arbitrary: w)
  case Nil
  then show ?case by simp
next
  case (Cons photo rest)
  show ?case
  proof (cases rule: download_loop_cases [of w tp photo srv rest])
    case skipped
    with Cons.prems have "warnings (download_loop srv tp rest w) = warnings w"
      by simp
    from Cons.IH [OF this] exists_kept [OF skipped(1), of srv tp rest] skipped(2)
    show ?thesis by simp
  next
    case (failed w')
    then have "length (warnings w') = Suc (length (warnings w))"
      by (simp add: warnings_def is_warning_def)
    with warnings_grow [of w' srv tp rest] failed(6) Cons.prems show ?thesis
      by simp
  next
    case (written w')
    then have "warnings w' = warnings w"
      by (simp add: warnings_def)
    with Cons.prems written(6) have "warnings (download_loop srv tp rest w') = warnings w'"
      by simp
    note rest = Cons.IH [OF this]
    from written(3) have "path_exists (fs w') (path_join tp (file_name photo))"
      by (simp add: path_exists_def write_file_def)
    from exists_kept [OF this, of srv tp rest] rest written(6)
    show ?thesis by simp
  qed
qed

lemma all_exist_nothing_done:
  "\<forall>p\<in>set ps. path_exists (fs w) (path_join tp (file_name p)) \<Longrightarrow>
   download_loop srv tp ps w = w"
  by (induction ps arbitrary: w) simp_all

lemma all_ok_no_warning:
  "\<forall>h u. status_code (srv h (Get u)) = 200 \<Longrightarrow>
   warnings (download_loop srv tp ps w) = warnings w"
proof (induction ps arbitrary: w)
  case Nil
  then show ?case by simp
next
  case (Cons photo rest)
  show ?case
  proof (cases rule: download_loop_cases [of w tp photo srv rest])
    case skipped
    with Cons show ?thesis by simp
  next
    case (failed w')
    with Cons.prems show ?thesis by simp
  next
    case (written w')
    then have "warnings w' = warnings w"
      by (simp add: warnings_def)
    with Cons.IH [OF Cons.prems, of w'] written(6) show ?thesis by simp
  qed
qed

lemma second_run_nothing:
  assumes "warnings (download_photos srv photos tp w) = warnings w"
  shows "download_photos srv' photos tp (download_photos srv photos tp w) =
         download_photos srv photos tp w"
proof -
  define w0 where "w0 = (if \<not> path_exists (fs w) tp
        then w\<lparr>logged := logged w @ [Info (ascii ''Creating '' @ tp)],
                fs := makedirs (fs w) tp\<rparr>
        else w)"
  define w1 where "w1 = download_loop srv tp photos w0"
  have w1: "download_photos srv photos tp w = w1"
    by (simp add: download_photos_def w1_def w0_def)
  have "warnings w0 = warnings w"
    by (simp add: w0_def warnings_def is_warning_def)
  with assms w1 have "warnings (download_loop srv tp photos w0) = warnings w0"
    by (simp add: w1_def)
  from no_warning_all_exist [OF this]
  have all: "\<forall>p\<in>set photos. path_exists (fs w1) (path_join tp (file_name p))"
    by (simp add: w1_def)
  have "path_exists (fs w0) tp"
    by (simp add: w0_def path_exists_def makedirs_def)
  then have "path_exists (fs w1) tp"
    unfolding w1_def by (rule exists_kept)
  then have "download_photos srv' photos tp w1 = download_loop srv' tp photos w1"
    by (simp add: download_photos_def)
  with all_exist_nothing_done [OF all] show ?thesis
    by (simp add: w1)
qed

lemma logged_extends: "\<exists>new. logged (download_loop srv tp ps w) = logged w @ new"
proof (induction ps arbitrary: w)
  case Nil
  then show ?case by simp
next
  case (Cons photo rest)
  show ?case
  proof (cases rule: download_loop_cases [of w tp photo srv rest])
    case skipped
    with Cons show ?thesis by simp
  next
    case (failed w')
    with Cons.IH [of w'] show ?thesis by auto
  next
    case (written w')
    with Cons.IH [of w'] show ?thesis by auto
  qed
qed

lemma net_extends: "\<exists>new. net (download_loop srv tp ps w) = net w @ new"
proof (induction ps arbitrary: w)
  case Nil
  then show ?case by simp
next
  case (Cons photo rest)
  show ?case
  proof (cases rule: download_loop_cases [of w tp photo srv rest])
    case skipped
    with Cons show ?thesis by simp
  next
    case (failed w')
    with Cons.IH [of w'] show ?thesis by auto
  next
    case (written w')
    with Cons.IH [of w'] show ?thesis by auto
  qed
qed

lemma attempted_kept:
  assumes "attempted tp p n l w"
  shows "attempted tp p n l (download_loop srv tp ps w)"
proof -
  obtain new_log where lg: "logged (download_loop srv tp ps w) = logged w @ new_log"
    using logged_extends by blast
  obtain new_net where nt: "net (download_loop srv tp ps w) = net w @ new_net"
    using net_extends by blast
  from assms show ?thesis
    unfolding attempted_def lg nt
    using exists_kept [of w "path_join tp (file_name p)" srv tp ps] by auto
qed

lemma each_photo_attempted:
  "n \<le> length (net w) \<Longrightarrow> l \<le> length (logged w) \<Longrightarrow>
   \<forall>p\<in>set ps. attempted tp p n l (download_loop srv tp ps w)"
proof (induction ps arbitrary: w)
  case Nil
  then show ?case by simp
next
  case (Cons photo rest)
  show ?case
  proof (cases rule: download_loop_cases [of w tp photo srv rest])
    case skipped
    then have "attempted tp photo n l w"
      by (simp add: attempted_def)
    from attempted_kept [OF this, of srv rest] Cons.IH [of w] Cons.prems skipped(2)
    show ?thesis by simp
  next
    case (failed w')
    with Cons.prems have "attempted tp photo n l w'"
      unfolding attempted_def by auto
    moreover from failed Cons.prems have "n \<le> length (net w')" "l \<le> length (logged w')"
      by simp_all
    ultimately show ?thesis
      using attempted_kept [of tp photo n l w' srv rest] Cons.IH [of w'] failed(6) by simp
  next
    case (written w')
    then have "attempted tp photo n l w'"
      by (simp add: attempted_def path_exists_def write_file_def)
    moreover from written Cons.prems have "n \<le> length (net w')" "l \<le> length (logged w')"
      by simp_all
    ultimately show ?thesis
      using attempted_kept [of tp photo n l w' srv rest] Cons.IH [of w'] written(6) by simp
  qed
qed

lemma path_x: "path_join (ascii ''photos'') (ascii ''chez-x_0.jpg'') = ascii ''photos/chez-x_0.jpg''"
  by (simp add: path_join_def ascii_def)

lemma path_y: "path_join (ascii ''photos'') (ascii ''chez-y_0.jpg'') = ascii ''photos/chez-y_0.jpg''"
  by (simp add: path_join_def ascii_def)

lemma first_run_flaky:
  "download_photos flaky_server [download_row] (ascii ''photos'') empty_world =
     \<lparr>fs = \<lparr>files = Map.empty, dirs = {ascii ''photos''}\<rparr>,
      net = [Get (ascii ''http://p/1'')],
      logged = [Info (ascii ''Creating photos''),
                Warning (photo_warning (ascii ''http://p/1'')
                  (flaky_server [] (Get (ascii ''http://p/1''))))]\<rparr>"
  by (simp add: download_photos_def empty_world_def download_row_def path_exists_def makedirs_def
      path_x flaky_server_def Let_def ascii_append [symmetric])

lemma second_run_flaky:
  "download_photos flaky_server [download_row] (ascii ''photos'')
     (download_photos flaky_server [download_row] (ascii ''photos'') empty_world) =
     \<lparr>fs = \<lparr>files = [ascii ''photos/chez-x_0.jpg'' \<mapsto> [1]], dirs = {ascii ''photos''}\<rparr>,
      net = [Get (ascii ''http://p/1''), Get (ascii ''http://p/1'')],
      logged = [Info (ascii ''Creating photos''),
                Warning (photo_warning (ascii ''http://p/1'')
                  (flaky_server [] (Get (ascii ''http://p/1''))))]\<rparr>"
  unfolding first_run_flaky
  by (simp add: download_photos_def download_row_def path_exists_def path_x write_file_def
      flaky_server_def Let_def)

lemma first_run_ok:
  "download_photos ok_server [download_row] (ascii ''photos'') empty_world =
     \<lparr>fs = \<lparr>files = [ascii ''photos/chez-x_0.jpg'' \<mapsto> [1]], dirs = {ascii ''photos''}\<rparr>,
      net = [Get (ascii ''http://p/1'')],
      logged = [Info (ascii ''Creating photos'')]\<rparr>"
  by (simp add: download_photos_def empty_world_def download_row_def path_exists_def makedirs_def
      path_x ok_server_def Let_def write_file_def ascii_append [symmetric])

lemma download_photos_created:
  "download_photos srv photos (ascii ''photos'') empty_world =
   download_loop srv (ascii ''photos'') photos created_world"
  by (simp add: download_photos_def empty_world_def created_world_def path_exists_def
      makedirs_def ascii_append [symmetric])

lemma after_first_failed:
  "download_loop flaky_server (ascii ''photos'') [download_row] created_world =
     created_world
       \<lparr>net := [Get (ascii ''http://p/1'')],
        logged := [Info (ascii ''Creating photos''),
                   Warning (photo_warning (ascii ''http://p/1'')
                     (flaky_server [] (Get (ascii ''http://p/1''))))]\<rparr>"
  by (simp add: created_world_def download_row_def path_exists_def path_x flaky_server_def Let_def)

section \<open>The price tier\<close>

text \<open>
  Claim C6. For a business entry (a dict), the price tier is 0 when the entry has no
  \<^verbatim>\<open>price\<close> field (or a null one) and the number of characters of the price when that
  is a str, and this is the tier the business row carries. The tier of \<^verbatim>\<open>$$\<close> is 2.
\<close>

theorem price_tier_absent_or_length:
  "(map_of kvs (ascii ''price'') = None \<longrightarrow> price_tier (JObj kvs) = Inr 0) \<and>
   (map_of kvs (ascii ''price'') = Some JNull \<longrightarrow> price_tier (JObj kvs) = Inr 0) \<and>
   (map_of kvs (ascii ''price'') = Some (JStr s) \<longrightarrow> price_tier (JObj kvs) = Inr (length s)) \<and>
   (business_row (JObj kvs) = Inr row \<longrightarrow> price_tier (JObj kvs) = Inr (business_price row))"
proof (intro conjI impI)
  assume "map_of kvs (ascii ''price'') = None"
  then show "price_tier (JObj kvs) = Inr 0"
    by (simp add: price_tier_def py_get_obj)
next
  assume "map_of kvs (ascii ''price'') = Some JNull"
  then show "price_tier (JObj kvs) = Inr 0"
    by (simp add: price_tier_def py_get_obj)
next
  assume "map_of kvs (ascii ''price'') = Some (JStr s)"
  then show "price_tier (JObj kvs) = Inr (length s)"
    by (simp add: price_tier_def py_get_obj py_len_def)
next
  assume "business_row (JObj kvs) = Inr row"
  then obtain v where "price_tier (JObj kvs) = Inr v" and "business_price row = v"
    by (auto simp: business_row_def then_do_eq_Inr)
  then show "price_tier (JObj kvs) = Inr (business_price row)"
    by simp
qed

theorem price_tier_witness:
  "price_tier (JObj []) = Inr 0 \<and>
   price_tier (JObj [(ascii ''price'', JNull)]) = Inr 0 \<and>
   price_tier (JObj sample_entry) = Inr 2 \<and>
   business_row (JObj sample_entry) = Inr sample_row \<and>
   business_price sample_row = 2"
proof -
  have absent: "map_of ([] :: (pystr \<times> json) list) (ascii ''price'') = None"
    by simp
  have null: "map_of [(ascii ''price'', JNull)] (ascii ''price'') = Some JNull"
    by simp
  have dollars: "map_of sample_entry (ascii ''price'') = Some (JStr (ascii ''$$''))"
    by (simp add: sample_entry_def)
  note inst = price_tier_absent_or_length [of sample_entry "ascii ''$$''" sample_row]
  from price_tier_absent_or_length [of "[]" "[]" sample_row, THEN conjunct1, THEN mp, OF absent]
  have a: "price_tier (JObj []) = Inr 0" .
  from price_tier_absent_or_length
    [of "[(ascii ''price'', JNull)]" "[]" sample_row, THEN conjunct2, THEN conjunct1, THEN mp,
     OF null]
  have n: "price_tier (JObj [(ascii ''price'', JNull)]) = Inr 0" .
  from inst [THEN conjunct2, THEN conjunct2, THEN conjunct1, THEN mp, OF dollars]
  have d: "price_tier (JObj sample_entry) = Inr 2"
    by simp
  from inst [THEN conjunct2, THEN conjunct2, THEN conjunct2, THEN mp, OF business_row_sample] d
  have p: "business_price sample_row = 2"
    by simp
  show ?thesis
    by (intro conjI a n d business_row_sample p)
qed

section \<open>A page without businesses\<close>

text \<open>
  Claim C7. When the payload is a dict in which \<^verbatim>\<open>data\<close>, or \<^verbatim>\<open>search\<close> inside it, or
  \<^verbatim>\<open>business\<close> inside that, is absent, normalising the page raises nothing and adds no
  row: started from three empty collections it returns three empty collections.
\<close>

theorem normalize_page_business_absent:
  assumes "map_of kvs (ascii ''data'') = None \<or>
     (\<exists>d. map_of kvs (ascii ''data'') = Some (JObj d) \<and>
        (map_of d (ascii ''search'') = None \<or>
         (\<exists>s. map_of d (ascii ''search'') = Some (JObj s) \<and>
            map_of s (ascii ''business'') = None)))"
  shows "normalize_page md5 (JObj kvs) t = Inr t \<and>
         normalize_page md5 (JObj kvs) ([], [], []) = Inr ([], [], [])"
  using assms by (auto simp: normalize_page_def py_get_obj py_iter_def)

theorem normalize_page_business_absent_witness:
  "normalize_page sample_md5
     (JObj [(ascii ''data'', JObj [(ascii ''search'', JObj [])])]) ([], [], []) =
   Inr ([], [], [])"
proof -
  have "\<exists>d. map_of [(ascii ''data'', JObj [(ascii ''search'', JObj [])])] (ascii ''data'') =
           Some (JObj d) \<and>
          (map_of d (ascii ''search'') = None \<or>
           (\<exists>s. map_of d (ascii ''search'') = Some (JObj s) \<and>
              map_of s (ascii ''business'') = None))"
    by simp
  then show ?thesis
    using normalize_page_business_absent
      [of "[(ascii ''data'', JObj [(ascii ''search'', JObj [])])]" sample_md5 "([], [], [])"]
    by blast
qed

section \<open>Null photos and reviews\<close>

text \<open>
  Claim C10. When the \<^verbatim>\<open>photos\<close> field of a business entry is present and null, the
  photo loop raises nothing and adds no photo row; the same holds of \<^verbatim>\<open>reviews\<close> and the
  review rows; with both null the entry still adds its business row. The
  \<^verbatim>\<open>categories\<close> field has no such guard: when it is present and null, both category
  columns raise \<^verbatim>\<open>TypeError\<close> and the entry produces no rows.
\<close>

theorem null_photos_reviews_guard:
  "(map_of kvs (ascii ''photos'') = Some JNull \<longrightarrow>
      add_photos md5 (JObj kvs) photos = Inr photos) \<and>
   (map_of kvs (ascii ''reviews'') = Some JNull \<longrightarrow>
      add_reviews (JObj kvs) reviews = Inr reviews) \<and>
   (map_of kvs (ascii ''photos'') = Some JNull \<and> map_of kvs (ascii ''reviews'') = Some JNull \<and>
      business_row (JObj kvs) = Inr row \<longrightarrow>
      process_business md5 (JObj kvs) (businesses, reviews, photos) =
        Inr (businesses @ [row], reviews, photos)) \<and>
   (map_of kvs (ascii ''categories'') = Some JNull \<longrightarrow>
      categories_of (JObj kvs) = Inl TypeError \<and>
      parent_categories_of (JObj kvs) = Inl TypeError \<and>
      (\<exists>e. business_row (JObj kvs) = Inl e) \<and>
      (\<exists>e. process_business md5 (JObj kvs) t = Inl e))"
proof -
  have cat: "categories_of (JObj kvs) = Inl TypeError \<and>
             parent_categories_of (JObj kvs) = Inl TypeError"
    if "map_of kvs (ascii ''categories'') = Some JNull"
    using that by (simp add: categories_of_def parent_categories_of_def py_get_obj py_iter_def)
  have row: "\<exists>e. business_row (JObj kvs) = Inl e"
    if "map_of kvs (ascii ''categories'') = Some JNull"
  proof (cases "business_row (JObj kvs)")
    case (Inl e)
    then show ?thesis by blast
  next
    case (Inr r)
    then have "\<exists>c. categories_of (JObj kvs) = Inr c"
      by (auto simp: business_row_def then_do_eq_Inr)
    with cat [OF that] show ?thesis by simp
  qed
  have pb: "\<exists>e. process_business md5 (JObj kvs) t = Inl e"
    if "map_of kvs (ascii ''categories'') = Some JNull"
    using row [OF that] by (cases t) auto
  show ?thesis
    using cat row pb
    by (auto simp: add_photos_def add_reviews_def py_get_obj py_iter_def py_or_def truthy_def)
qed

theorem null_photos_reviews_guard_witness:
  "add_photos sample_md5 (JObj null_entry) [] = Inr [] \<and>
   add_reviews (JObj null_entry) [] = Inr [] \<and>
   process_business sample_md5 (JObj null_entry) ([], [], []) = Inr ([sample_row], [], []) \<and>
   categories_of (JObj [(ascii ''categories'', JNull)]) = Inl TypeError \<and>
   parent_categories_of (JObj [(ascii ''categories'', JNull)]) = Inl TypeError \<and>
   (\<exists>e. process_business sample_md5 (JObj [(ascii ''categories'', JNull)]) ([], [], []) = Inl e)"
proof -
  have p: "map_of null_entry (ascii ''photos'') = Some JNull"
    and r: "map_of null_entry (ascii ''reviews'') = Some JNull"
    by (simp_all add: null_entry_def)
  have c: "map_of [(ascii ''categories'', JNull)] (ascii ''categories'') = Some JNull"
    by simp
  show ?thesis
    using null_photos_reviews_guard
            [of null_entry sample_md5 "[]" "[]" sample_row "[]" "([], [], [])"]
          null_photos_reviews_guard
            [of "[(ascii ''categories'', JNull)]" sample_md5 "[]" "[]" sample_row "[]"
                "([], [], [])"]
          p r c business_row_null_entry
    by simp
qed

section \<open>Categories without duplicates\<close>



section \<open>The file name of a photo\<close>

text \<open>
  Claim C4. For every alias (a str) and every photo URL (a str that UTF-8 can
  encode), the photo loop stores the file name \<^verbatim>\<open>alias + "_" + md5(url) + ".jpg"\<close>, the
  digest taken of the UTF-8 bytes of the URL; every photo row of a harvest that returns
  has that file name, so the name is a function of the alias and the URL alone, and
  two rows of the same alias have the same file name exactly when the digests of their
  URLs are equal. The UTF-8 encoding is injective on strs, so different URLs have
  different encodings; where the digest does not collide on the encoded URLs (of the
  harvest, or of two given URLs), two names of the same alias are equal exactly when
  the URLs are: different URLs give different names. (How likely two URLs are to share
  a digest is a property of MD5, not of this program.)
\<close>

theorem photo_file_name_md5:
  "(map_of kvs (ascii ''alias'') = Some (JStr a) \<and> \<not> list_ex is_surrogate u \<longrightarrow>
      photo_loop md5 (JObj kvs) [JStr u] photos =
        Inr (photos @ [\<lparr>photo_business_alias = JStr a, photo_url = u,
                          file_name = a @ ascii ''_'' @ md5 (utf8 u) @ ascii ''.jpg''\<rparr>])) \<and>
   (get_yelp_data srv k md5 sent locations category = (sent', Inr (bs, rs, ps)) \<longrightarrow>
      (\<forall>p\<in>set ps. \<exists>b. photo_business_alias p = JStr b \<and>
         encode_utf8 (photo_url p) = Inr (utf8 (photo_url p)) \<and>
         file_name p = b @ ascii ''_'' @ md5 (utf8 (photo_url p)) @ ascii ''.jpg'') \<and>
      (\<forall>p\<in>set ps. \<forall>q\<in>set ps. photo_business_alias p = photo_business_alias q \<longrightarrow>
         (file_name p = file_name q) = (md5 (utf8 (photo_url p)) = md5 (utf8 (photo_url q)))) \<and>
      ((\<forall>p\<in>set ps. list_all code_point (photo_url p)) \<and>
       inj_on md5 (utf8 ` photo_url ` set ps) \<longrightarrow>
         (\<forall>p\<in>set ps. \<forall>q\<in>set ps. photo_business_alias p = photo_business_alias q \<longrightarrow>
            (file_name p = file_name q) = (photo_url p = photo_url q)))) \<and>
   (list_all code_point u \<and> list_all code_point v \<longrightarrow> (utf8 u = utf8 v) = (u = v)) \<and>
   (list_all code_point u \<and> list_all code_point v \<and> inj_on md5 {utf8 u, utf8 v} \<longrightarrow>
      (a @ ascii ''_'' @ md5 (utf8 u) @ ascii ''.jpg'' =
       a @ ascii ''_'' @ md5 (utf8 v) @ ascii ''.jpg'') = (u = v))"
proof -
  have one: "map_of kvs (ascii ''alias'') = Some (JStr a) \<and> \<not> list_ex is_surrogate u \<longrightarrow>
      photo_loop md5 (JObj kvs) [JStr u] photos =
        Inr (photos @ [\<lparr>photo_business_alias = JStr a, photo_url = u,
                          file_name = a @ ascii ''_'' @ md5 (utf8 u) @ ascii ''.jpg''\<rparr>])"
    by (simp add: py_get_obj py_add_str_def encode_utf8_def)
  have enc: "list_all code_point u \<and> list_all code_point v \<longrightarrow> (utf8 u = utf8 v) = (u = v)"
    using utf8_inj [of u v] by auto
  have names: "list_all code_point u \<and> list_all code_point v \<and> inj_on md5 {utf8 u, utf8 v} \<longrightarrow>
      (a @ ascii ''_'' @ md5 (utf8 u) @ ascii ''.jpg'' =
       a @ ascii ''_'' @ md5 (utf8 v) @ ascii ''.jpg'') = (u = v)"
  proof
    assume h: "list_all code_point u \<and> list_all code_point v \<and> inj_on md5 {utf8 u, utf8 v}"
    then have "inj_on md5 {utf8 u, utf8 v}"
      by (elim conjE)
    then have "(md5 (utf8 u) = md5 (utf8 v)) = (utf8 u = utf8 v)"
      by (rule inj_on_eq_iff) simp_all
    with h enc show "(a @ ascii ''_'' @ md5 (utf8 u) @ ascii ''.jpg'' =
       a @ ascii ''_'' @ md5 (utf8 v) @ ascii ''.jpg'') = (u = v)"
      by simp
  qed
  have harvest: "get_yelp_data srv k md5 sent locations category = (sent', Inr (bs, rs, ps)) \<longrightarrow>
      (\<forall>p\<in>set ps. \<exists>b. photo_business_alias p = JStr b \<and>
         encode_utf8 (photo_url p) = Inr (utf8 (photo_url p)) \<and>
         file_name p = b @ ascii ''_'' @ md5 (utf8 (photo_url p)) @ ascii ''.jpg'') \<and>
      (\<forall>p\<in>set ps. \<forall>q\<in>set ps. photo_business_alias p = photo_business_alias q \<longrightarrow>
         (file_name p = file_name q) = (md5 (utf8 (photo_url p)) = md5 (utf8 (photo_url q)))) \<and>
      ((\<forall>p\<in>set ps. list_all code_point (photo_url p)) \<and>
       inj_on md5 (utf8 ` photo_url ` set ps) \<longrightarrow>
         (\<forall>p\<in>set ps. \<forall>q\<in>set ps. photo_business_alias p = photo_business_alias q \<longrightarrow>
            (file_name p = file_name q) = (photo_url p = photo_url q)))"
  proof
    assume run: "get_yelp_data srv k md5 sent locations category = (sent', Inr (bs, rs, ps))"
    define P :: "tables \<Rightarrow> bool" where
      "P t \<longleftrightarrow> (\<forall>p\<in>set (snd (snd t)). \<exists>business. named md5 business p)" for t
    have "P ([], [], [])"
      by (simp add: P_def)
    moreover have "\<forall>business t t'. P t \<and> process_business md5 business t = Inr t' \<longrightarrow> P t'"
    proof (intro allI impI)
      fix business t t'
      assume a: "P t \<and> process_business md5 business t = Inr t'"
      obtain b1 r1 p1 where t: "t = (b1, r1, p1)"
        by (cases t) auto
      from a t process_business_rows [of md5 business b1 r1 p1 t']
      obtain row rnew pnew where "t' = (b1 @ [row], r1 @ rnew, p1 @ pnew)"
        and "\<forall>p\<in>set pnew. photo_business_alias p = business_alias row \<and> named md5 business p"
        by blast
      with a t show "P t'"
        by (auto simp: P_def)
    qed
    ultimately have "P (bs, rs, ps)"
      using run by (rule get_yelp_data_invariant)
    then have named: "\<forall>p\<in>set ps. \<exists>business. named md5 business p"
      by (simp add: P_def)
    have fmt: "\<forall>p\<in>set ps. \<exists>b. photo_business_alias p = JStr b \<and>
         encode_utf8 (photo_url p) = Inr (utf8 (photo_url p)) \<and>
         file_name p = b @ ascii ''_'' @ md5 (utf8 (photo_url p)) @ ascii ''.jpg''"
      using named unfolding named_def by blast
    have digest: "\<forall>p\<in>set ps. \<forall>q\<in>set ps. photo_business_alias p = photo_business_alias q \<longrightarrow>
         (file_name p = file_name q) = (md5 (utf8 (photo_url p)) = md5 (utf8 (photo_url q)))"
    proof (intro ballI impI)
      fix p q
      assume p: "p \<in> set ps" and q: "q \<in> set ps"
        and same: "photo_business_alias p = photo_business_alias q"
      from fmt p obtain b where b: "photo_business_alias p = JStr b"
        "file_name p = b @ ascii ''_'' @ md5 (utf8 (photo_url p)) @ ascii ''.jpg''"
        by blast
      from fmt q obtain c where c: "photo_business_alias q = JStr c"
        "file_name q = c @ ascii ''_'' @ md5 (utf8 (photo_url q)) @ ascii ''.jpg''"
        by blast
      from same b(1) c(1) have "b = c" by simp
      with b(2) c(2) show "(file_name p = file_name q) = (md5 (utf8 (photo_url p)) = md5 (utf8 (photo_url q)))"
        by simp
    qed
    have urls: "(\<forall>p\<in>set ps. list_all code_point (photo_url p)) \<and>
       inj_on md5 (utf8 ` photo_url ` set ps) \<longrightarrow>
         (\<forall>p\<in>set ps. \<forall>q\<in>set ps. photo_business_alias p = photo_business_alias q \<longrightarrow>
            (file_name p = file_name q) = (photo_url p = photo_url q))"
    proof (intro ballI impI)
      fix p q
      assume h: "(\<forall>p\<in>set ps. list_all code_point (photo_url p)) \<and>
          inj_on md5 (utf8 ` photo_url ` set ps)"
        and p: "p \<in> set ps" and q: "q \<in> set ps"
        and same: "photo_business_alias p = photo_business_alias q"
      from p q have "utf8 (photo_url p) \<in> utf8 ` photo_url ` set ps"
        and "utf8 (photo_url q) \<in> utf8 ` photo_url ` set ps"
        by simp_all
      moreover from h have "inj_on md5 (utf8 ` photo_url ` set ps)"
        by (elim conjE)
      ultimately have "(md5 (utf8 (photo_url p)) = md5 (utf8 (photo_url q))) =
          (utf8 (photo_url p) = utf8 (photo_url q))"
        by (intro inj_on_eq_iff)
      moreover from h p q have "(utf8 (photo_url p) = utf8 (photo_url q)) = (photo_url p = photo_url q)"
        using utf8_inj [of "photo_url p" "photo_url q"] by auto
      moreover from digest p q same
      have "(file_name p = file_name q) = (md5 (utf8 (photo_url p)) = md5 (utf8 (photo_url q)))"
        by blast
      ultimately show "(file_name p = file_name q) = (photo_url p = photo_url q)"
        by simp
    qed
    from fmt digest urls show "(\<forall>p\<in>set ps. \<exists>b. photo_business_alias p = JStr b \<and>
         encode_utf8 (photo_url p) = Inr (utf8 (photo_url p)) \<and>
         file_name p = b @ ascii ''_'' @ md5 (utf8 (photo_url p)) @ ascii ''.jpg'') \<and>
      (\<forall>p\<in>set ps. \<forall>q\<in>set ps. photo_business_alias p = photo_business_alias q \<longrightarrow>
         (file_name p = file_name q) = (md5 (utf8 (photo_url p)) = md5 (utf8 (photo_url q)))) \<and>
      ((\<forall>p\<in>set ps. list_all code_point (photo_url p)) \<and>
       inj_on md5 (utf8 ` photo_url ` set ps) \<longrightarrow>
         (\<forall>p\<in>set ps. \<forall>q\<in>set ps. photo_business_alias p = photo_business_alias q \<longrightarrow>
            (file_name p = file_name q) = (photo_url p = photo_url q)))"
      by (intro conjI)
  qed
  from one harvest enc names show ?thesis
    by (intro conjI)
qed

theorem photo_file_name_md5_witness:
  "photo_loop sample_md5 (JObj sample_entry) [JStr (ascii ''http://p/1'')] [] = Inr [sample_photo] \<and>
   get_yelp_data sample_server None sample_md5 [] [ascii ''Paris''] (ascii ''restaurants'') =
     (map (page_request None (ascii ''restaurants'') (ascii ''Paris'')) [0, 50, 100, 150],
      Inr ([sample_row], [sample_review], [sample_photo])) \<and>
   file_name sample_photo =
     ascii ''chez-x'' @ ascii ''_'' @ sample_md5 (utf8 (photo_url sample_photo)) @ ascii ''.jpg'' \<and>
   get_yelp_data two_photos_server None sample_md5 [] [ascii ''Paris''] (ascii ''restaurants'') =
     (map (page_request None (ascii ''restaurants'') (ascii ''Paris'')) [0, 50, 100, 150],
      Inr ([bare_row], [], [sample_photo, photo_e])) \<and>
   photo_business_alias sample_photo = photo_business_alias photo_e \<and>
   photo_url sample_photo \<noteq> photo_url photo_e \<and>
   file_name sample_photo \<noteq> file_name photo_e \<and>
   file_name sample_photo =
     ascii ''chez-x_'' @ [104, 116, 116, 112, 58, 47, 47, 112, 47, 49] @ ascii ''.jpg'' \<and>
   file_name photo_e =
     ascii ''chez-x_'' @ [104, 116, 116, 112, 58, 47, 47, 112, 47, 195, 169] @ ascii ''.jpg'' \<and>
   utf8 [233] \<noteq> utf8 [8364]"
proof -
  have al: "map_of sample_entry (ascii ''alias'') = Some (JStr (ascii ''chez-x'')) \<and>
      \<not> list_ex is_surrogate (ascii ''http://p/1'')"
    by (simp add: sample_entry_def)
  note inst = photo_file_name_md5
    [where kvs = sample_entry and a = "ascii ''chez-x''" and u = "ascii ''http://p/1''"
       and ?md5.0 = sample_md5 and photos = "[]" and srv = sample_server and k = None
       and sent = "[]" and locations = "[ascii ''Paris'']" and category = "ascii ''restaurants''"
       and sent' = "map (page_request None (ascii ''restaurants'') (ascii ''Paris''))
         [0, 50, 100, 150]"
       and bs = "[sample_row]" and rs = "[sample_review]" and ps = "[sample_photo]"]
  from inst al have "photo_loop sample_md5 (JObj sample_entry) [JStr (ascii ''http://p/1'')] [] =
      Inr [\<lparr>photo_business_alias = JStr (ascii ''chez-x''), photo_url = ascii ''http://p/1'',
             file_name = ascii ''chez-x'' @ ascii ''_'' @ sample_md5 (utf8 (ascii ''http://p/1'')) @ ascii ''.jpg''\<rparr>]"
    by simp
  then have one: "photo_loop sample_md5 (JObj sample_entry) [JStr (ascii ''http://p/1'')] [] = Inr [sample_photo]"
    by (simp add: sample_photo_def ascii_append [symmetric])
  from inst [THEN conjunct2, THEN conjunct1, THEN mp, OF harvest_sample, THEN conjunct1]
  have "\<exists>b. photo_business_alias sample_photo = JStr b \<and>
      file_name sample_photo = b @ ascii ''_'' @ sample_md5 (utf8 (photo_url sample_photo)) @ ascii ''.jpg''"
    by (simp only: list.set ball_simps) blast
  then have name: "file_name sample_photo =
     ascii ''chez-x'' @ ascii ''_'' @ sample_md5 (utf8 (photo_url sample_photo)) @ ascii ''.jpg''"
    by (auto simp: sample_photo_def)
  note inst2 = photo_file_name_md5
    [where ?md5.0 = sample_md5 and srv = two_photos_server and k = None
       and sent = "[]" and locations = "[ascii ''Paris'']" and category = "ascii ''restaurants''"
       and sent' = "map (page_request None (ascii ''restaurants'') (ascii ''Paris''))
         [0, 50, 100, 150]"
       and bs = "[bare_row]" and rs = "[]" and ps = "[sample_photo, photo_e]"
       and u = "[233]" and v = "[8364]"]
  have valid: "\<forall>p\<in>set [sample_photo, photo_e]. list_all code_point (photo_url p)"
    by (simp add: sample_photo_def photo_e_def code_point_def)
  have inj: "inj_on sample_md5 (utf8 ` photo_url ` set [sample_photo, photo_e])"
    by (rule inj_on_subset [OF inj_sample_md5 subset_UNIV])
  note urls = inst2 [THEN conjunct2, THEN conjunct1, THEN mp, OF harvest_two_photos,
    THEN conjunct2, THEN conjunct2, THEN mp, OF conjI [OF valid inj]]
  have same: "photo_business_alias sample_photo = photo_business_alias photo_e"
    by (simp add: sample_photo_def photo_e_def)
  have diff: "photo_url sample_photo \<noteq> photo_url photo_e"
    by (simp add: sample_photo_def photo_e_def ascii_def)
  from urls same have "(file_name sample_photo = file_name photo_e) =
      (photo_url sample_photo = photo_url photo_e)"
    by simp
  with diff have names: "file_name sample_photo \<noteq> file_name photo_e"
    by simp
  have n1: "file_name sample_photo =
     ascii ''chez-x_'' @ [104, 116, 116, 112, 58, 47, 47, 112, 47, 49] @ ascii ''.jpg''"
    by (simp add: sample_photo_def sample_md5_def utf8_def utf8_char_def ascii_def)
  have n2: "file_name photo_e =
     ascii ''chez-x_'' @ [104, 116, 116, 112, 58, 47, 47, 112, 47, 195, 169] @ ascii ''.jpg''"
    by (simp add: photo_e_def sample_md5_def utf8_def utf8_char_def ascii_def)
  have "list_all code_point [233] \<and> list_all code_point [8364]"
    by (simp add: code_point_def)
  with inst2 [THEN conjunct2, THEN conjunct2, THEN conjunct1]
  have enc: "utf8 [233] \<noteq> utf8 [8364]"
    by simp
  from one name same diff names n1 n2 enc show ?thesis
    by (intro conjI harvest_sample harvest_two_photos)
qed

section \<open>Referential integrity\<close>

text \<open>
  Claim C9. The rows that one business entry adds are its business row, and review
  and photo rows that all carry the alias of that business row; hence in the result of
  a harvest that returns, every review row and every photo row carries the alias of
  some business row of the result.
\<close>

theorem rows_carry_business_alias:
  "(process_business md5 business (businesses, reviews, photos) = Inr (businesses', reviews', photos') \<longrightarrow>
      (\<exists>row rnew pnew. businesses' = businesses @ [row] \<and> reviews' = reviews @ rnew \<and>
         photos' = photos @ pnew \<and>
         (\<forall>r\<in>set rnew. review_business_alias r = business_alias row) \<and>
         (\<forall>p\<in>set pnew. photo_business_alias p = business_alias row))) \<and>
   (get_yelp_data srv k md5 sent locations category = (sent', Inr (bs, rs, ps)) \<longrightarrow>
      (\<forall>r\<in>set rs. \<exists>b\<in>set bs. business_alias b = review_business_alias r) \<and>
      (\<forall>p\<in>set ps. \<exists>b\<in>set bs. business_alias b = photo_business_alias p))"
proof (intro conjI impI)
  assume "process_business md5 business (businesses, reviews, photos) = Inr (businesses', reviews', photos')"
  from process_business_rows [OF this]
  obtain row rnew pnew where "(businesses', reviews', photos') = (businesses @ [row], reviews @ rnew, photos @ pnew)"
    and r: "\<forall>r\<in>set rnew. review_business_alias r = business_alias row"
    and p: "\<forall>p\<in>set pnew. photo_business_alias p = business_alias row \<and> named md5 business p"
    by blast
  then have eqs: "businesses' = businesses @ [row]" "reviews' = reviews @ rnew" "photos' = photos @ pnew"
    by simp_all
  show "\<exists>row rnew pnew. businesses' = businesses @ [row] \<and> reviews' = reviews @ rnew \<and>
         photos' = photos @ pnew \<and>
         (\<forall>r\<in>set rnew. review_business_alias r = business_alias row) \<and>
         (\<forall>p\<in>set pnew. photo_business_alias p = business_alias row)"
  proof (intro exI conjI)
    show "businesses' = businesses @ [row]" by (rule eqs)
    show "reviews' = reviews @ rnew" by (rule eqs)
    show "photos' = photos @ pnew" by (rule eqs)
    show "\<forall>r\<in>set rnew. review_business_alias r = business_alias row" by (rule r)
    show "\<forall>p\<in>set pnew. photo_business_alias p = business_alias row" using p by simp
  qed
next
  assume run: "get_yelp_data srv k md5 sent locations category = (sent', Inr (bs, rs, ps))"
  define P :: "tables \<Rightarrow> bool" where
    "P t \<longleftrightarrow>
       (\<forall>r\<in>set (fst (snd t)). \<exists>b\<in>set (fst t). business_alias b = review_business_alias r) \<and>
       (\<forall>p\<in>set (snd (snd t)). \<exists>b\<in>set (fst t). business_alias b = photo_business_alias p)" for t
  have "P ([], [], [])"
    by (simp add: P_def)
  moreover have "\<forall>business t t'. P t \<and> process_business md5 business t = Inr t' \<longrightarrow> P t'"
  proof (intro allI impI)
    fix business t t'
    assume a: "P t \<and> process_business md5 business t = Inr t'"
    obtain b1 r1 p1 where t: "t = (b1, r1, p1)"
      by (cases t) auto
    from a t process_business_rows [of md5 business b1 r1 p1 t']
    obtain row rnew pnew where t': "t' = (b1 @ [row], r1 @ rnew, p1 @ pnew)"
      and r: "\<forall>r\<in>set rnew. review_business_alias r = business_alias row"
      and p: "\<forall>p\<in>set pnew. photo_business_alias p = business_alias row \<and> named md5 business p"
      by blast
    from a t have old: "\<forall>r\<in>set r1. \<exists>b\<in>set b1. business_alias b = review_business_alias r"
      "\<forall>p\<in>set p1. \<exists>b\<in>set b1. business_alias b = photo_business_alias p"
      by (simp_all add: P_def)
    have "\<forall>r\<in>set (r1 @ rnew). \<exists>b\<in>set (b1 @ [row]). business_alias b = review_business_alias r"
      using old(1) r by fastforce
    moreover have "\<forall>p\<in>set (p1 @ pnew). \<exists>b\<in>set (b1 @ [row]). business_alias b = photo_business_alias p"
      using old(2) p by fastforce
    ultimately show "P t'"
      by (simp add: P_def t')
  qed
  ultimately have "P (bs, rs, ps)"
    using run by (rule get_yelp_data_invariant)
  then show "\<forall>r\<in>set rs. \<exists>b\<in>set bs. business_alias b = review_business_alias r"
    and "\<forall>p\<in>set ps. \<exists>b\<in>set bs. business_alias b = photo_business_alias p"
    by (simp_all add: P_def)
qed

theorem rows_carry_business_alias_witness:
  "process_business sample_md5 (JObj sample_entry) ([], [], []) =
     Inr ([sample_row], [sample_review], [sample_photo]) \<and>
   get_yelp_data sample_server None sample_md5 [] [ascii ''Paris''] (ascii ''restaurants'') =
     (map (page_request None (ascii ''restaurants'') (ascii ''Paris'')) [0, 50, 100, 150],
      Inr ([sample_row], [sample_review], [sample_photo])) \<and>
   business_alias sample_row = review_business_alias sample_review \<and>
   business_alias sample_row = photo_business_alias sample_photo \<and>
   (\<exists>row rnew pnew. [sample_row] = [row] \<and> [sample_review] = rnew \<and> [sample_photo] = pnew \<and>
      (\<forall>r\<in>set rnew. review_business_alias r = business_alias row) \<and>
      (\<forall>p\<in>set pnew. photo_business_alias p = business_alias row))"
proof -
  note inst = rows_carry_business_alias
    [of sample_md5 "JObj sample_entry" "[]" "[]" "[]" "[sample_row]" "[sample_review]" "[sample_photo]"
        sample_server None "[]" "[ascii ''Paris'']" "ascii ''restaurants''"
        "map (page_request None (ascii ''restaurants'') (ascii ''Paris'')) [0, 50, 100, 150]"
        "[sample_row]" "[sample_review]" "[sample_photo]"]
  from inst [THEN conjunct1, THEN mp, OF process_sample]
  have entry: "\<exists>row rnew pnew. [sample_row] = [row] \<and> [sample_review] = rnew \<and>
      [sample_photo] = pnew \<and>
      (\<forall>r\<in>set rnew. review_business_alias r = business_alias row) \<and>
      (\<forall>p\<in>set pnew. photo_business_alias p = business_alias row)"
    by simp
  note both = inst [THEN conjunct2, THEN mp, OF harvest_sample]
  from both [THEN conjunct1]
  have r: "business_alias sample_row = review_business_alias sample_review"
    by simp
  from both [THEN conjunct2]
  have p: "business_alias sample_row = photo_business_alias sample_photo"
    by simp
  show ?thesis
    by (intro conjI process_sample harvest_sample r p entry)
qed

section \<open>The pages a harvest requests\<close>

text \<open>
  Claim C1. The offsets of a location are the multiples of \<open>limit\<close> strictly below
  \<open>count\<close>, in increasing order: 0, \<open>limit\<close>, \<open>2 * limit\<close>, \<open>3 * limit\<close>. A harvest sends
  the page requests of its schedule (for each location in turn, each of these offsets)
  one after the other, each once and in that order, and stops only where a page raises;
  a harvest that returns has sent the request of every page of the schedule, whatever
  number of businesses the pages held, and returns the rows of the pages concatenated
  in that order. The request of a page posts to the endpoint, with the headers, the
  query whose search arguments are the category, the location, the offset and \<open>limit\<close>,
  the two numbers in decimal digits, followed by a selection that is the same for every
  page; so the requests of one location at two offsets are equal only when the offsets
  are, the requests of two locations at one offset only when the locations are, and the
  four requests of a location are distinct.
\<close>

theorem harvest_pages:
  "py_range 0 count limit = filter (\<lambda>offset. limit dvd offset) [0..<count] \<and>
   py_range 0 count limit = [0, limit, 2 * limit, 3 * limit] \<and>
   schedule locations =
     concat (map (\<lambda>location.
       [(location, 0), (location, limit), (location, 2 * limit), (location, 3 * limit)])
       locations) \<and>
   (get_yelp_data srv k md5 sent0 locations category = (sent', res) \<longrightarrow>
      (\<exists>n\<le>length (schedule locations).
         sent' = sent0 @ map (scheduled_request k category) (take n (schedule locations))) \<and>
      (\<forall>t. res = Inr t \<longrightarrow>
         sent' = sent0 @ map (scheduled_request k category) (schedule locations) \<and>
         (\<exists>ds. length ds = length (schedule locations) \<and>
            (\<forall>i<length (schedule locations).
               page_at srv k md5 category sent0 (schedule locations) i = Inr (ds ! i)) \<and>
            t = foldl append_tables ([], [], []) ds))) \<and>
   scheduled_request k category (location, offset) =
     Post url (headers k) (build_query category location offset limit) \<and>
   (\<exists>selection. \<forall>category location offset lmt.
      build_query category location offset lmt =
        ascii ''{'' @ [10] @ ascii ''        search(''
        @ ascii ''            categories: '' @ [34] @ category @ [34] @ ascii '', ''
        @ ascii ''            location: '' @ [34] @ location @ [34] @ ascii '', ''
        @ ascii ''            offset: '' @ str_nat offset @ ascii '', ''
        @ ascii ''            limit:  '' @ str_nat lmt @ selection) \<and>
   decimal (str_nat offset) = offset \<and>
   (\<forall>d\<in>set (str_nat offset). 48 \<le> d \<and> d \<le> 57) \<and>
   (scheduled_request k category (location, offset) =
      scheduled_request k category (location, offset')) = (offset = offset') \<and>
   (scheduled_request k category (location, offset) =
      scheduled_request k category (location', offset)) = (location = location') \<and>
   distinct (map (scheduled_request k category) (schedule [location]))"
proof -
  have offs: "py_range 0 count limit = filter (\<lambda>offset. limit dvd offset) [0..<count]"
    by (rule offsets_multiples)
  have offs': "py_range 0 count limit = [0, limit, 2 * limit, 3 * limit]"
    by (simp add: offsets) (simp add: limit_def)
  have sched: "schedule locations =
     concat (map (\<lambda>location.
       [(location, 0), (location, limit), (location, 2 * limit), (location, 3 * limit)])
       locations)"
    by (simp add: schedule_def offsets) (simp add: limit_def)
  have run: "get_yelp_data srv k md5 sent0 locations category = (sent', res) \<longrightarrow>
      (\<exists>n\<le>length (schedule locations).
         sent' = sent0 @ map (scheduled_request k category) (take n (schedule locations))) \<and>
      (\<forall>t. res = Inr t \<longrightarrow>
         sent' = sent0 @ map (scheduled_request k category) (schedule locations) \<and>
         (\<exists>ds. length ds = length (schedule locations) \<and>
            (\<forall>i<length (schedule locations).
               page_at srv k md5 category sent0 (schedule locations) i = Inr (ds ! i)) \<and>
            t = foldl append_tables ([], [], []) ds))"
  proof (intro conjI impI allI)
    assume run: "get_yelp_data srv k md5 sent0 locations category = (sent', res)"
    show "\<exists>n\<le>length (schedule locations).
           sent' = sent0 @ map (scheduled_request k category) (take n (schedule locations))"
    proof (cases res)
      case (Inl e)
      with run have "page_loop srv k md5 category (schedule locations) sent0 ([], [], []) = (sent', Inl e)"
        by (simp add: get_yelp_data_page_loop)
      from page_loop_Inl [OF this] obtain n where "n < length (schedule locations)"
        "sent' = sent0 @ map (scheduled_request k category) (take (Suc n) (schedule locations))"
        by blast
      then have "Suc n \<le> length (schedule locations) \<and>
          sent' = sent0 @ map (scheduled_request k category) (take (Suc n) (schedule locations))"
        by simp
      then show ?thesis
        by (intro exI [of _ "Suc n"])
    next
      case (Inr t)
      with run have "page_loop srv k md5 category (schedule locations) sent0 ([], [], []) = (sent', Inr t)"
        by (simp add: get_yelp_data_page_loop)
      from page_loop_Inr [OF this]
      have "sent' = sent0 @ map (scheduled_request k category) (schedule locations)"
        by blast
      then have "length (schedule locations) \<le> length (schedule locations) \<and>
          sent' = sent0 @ map (scheduled_request k category)
            (take (length (schedule locations)) (schedule locations))"
        by simp
      then show ?thesis
        by (intro exI [of _ "length (schedule locations)"])
    qed
  next
    fix t
    assume run: "get_yelp_data srv k md5 sent0 locations category = (sent', res)"
      and res: "res = Inr t"
    then have "page_loop srv k md5 category (schedule locations) sent0 ([], [], []) = (sent', Inr t)"
      by (simp add: get_yelp_data_page_loop)
    from page_loop_Inr [OF this]
    show "sent' = sent0 @ map (scheduled_request k category) (schedule locations)"
      and "\<exists>ds. length ds = length (schedule locations) \<and>
              (\<forall>i<length (schedule locations).
                 page_at srv k md5 category sent0 (schedule locations) i = Inr (ds ! i)) \<and>
              t = foldl append_tables ([], [], []) ds"
      by simp_all
  qed
  have req: "scheduled_request k category (location, offset) =
     Post url (headers k) (build_query category location offset limit)"
    by (simp add: scheduled_request_def page_request_def)
  have digits: "\<forall>d\<in>set (str_nat offset). 48 \<le> d \<and> d \<le> 57"
    using str_nat_digits by blast
  have inj_offset: "(scheduled_request k category (location, offset) =
      scheduled_request k category (location, offset')) = (offset = offset')"
    using build_query_offset_inj [of category location offset limit offset']
    by (auto simp: scheduled_request_def page_request_def)
  have inj_location: "(scheduled_request k category (location, offset) =
      scheduled_request k category (location', offset)) = (location = location')"
    using build_query_location_inj [of category location offset limit location']
    by (auto simp: scheduled_request_def page_request_def)
  have neq: "page_request k category location a \<noteq> page_request k category location b"
    if "a \<noteq> b" for a b
    using that build_query_offset_inj [of category location a limit b]
    by (auto simp: page_request_def)
  have dist: "distinct (map (scheduled_request k category) (schedule [location]))"
    by (simp add: schedule_def offsets scheduled_request_def neq)
  from offs offs' sched run req build_query_head decimal_str_nat digits inj_offset inj_location dist
  show ?thesis
    by (intro conjI)
qed

theorem harvest_pages_witness:
  "get_yelp_data sample_server None sample_md5 [] [ascii ''Paris''] (ascii ''restaurants'') =
     (map (page_request None (ascii ''restaurants'') (ascii ''Paris'')) [0, 50, 100, 150],
      Inr ([sample_row], [sample_review], [sample_photo])) \<and>
   map (page_request None (ascii ''restaurants'') (ascii ''Paris'')) [0, 50, 100, 150] =
     [] @ map (scheduled_request None (ascii ''restaurants'')) (schedule [ascii ''Paris'']) \<and>
   py_range 0 count limit = [0, 50, 100, 150] \<and>
   str_nat 150 = ascii ''150'' \<and>
   decimal (ascii ''150'') = 150 \<and>
   page_request None (ascii ''restaurants'') (ascii ''Paris'') 0 \<noteq>
     page_request None (ascii ''restaurants'') (ascii ''Paris'') 50 \<and>
   page_request None (ascii ''restaurants'') (ascii ''Paris'') 50 \<noteq>
     page_request None (ascii ''restaurants'') (ascii ''Lyon'') 50"
proof -
  note inst = harvest_pages
    [where srv = sample_server and k = None and ?md5.0 = sample_md5 and ?sent0.0 = "[]"
       and locations = "[ascii ''Paris'']" and category = "ascii ''restaurants''"
       and sent' = "map (page_request None (ascii ''restaurants'') (ascii ''Paris''))
         [0, 50, 100, 150]"
       and res = "Inr ([sample_row], [sample_review], [sample_photo])"]
  note run = inst [THEN conjunct2, THEN conjunct2, THEN conjunct2, THEN conjunct1, THEN mp,
    OF harvest_sample, THEN conjunct2]
  from run have sent: "map (page_request None (ascii ''restaurants'') (ascii ''Paris'')) [0, 50, 100, 150] =
     [] @ map (scheduled_request None (ascii ''restaurants'')) (schedule [ascii ''Paris''])"
    by blast
  note rest = inst [where location = "ascii ''Paris''" and offset = 150 and offset' = 50
      and location' = "ascii ''Lyon''",
    THEN conjunct2, THEN conjunct2, THEN conjunct2, THEN conjunct2, THEN conjunct2,
    THEN conjunct2]
  have s150: "str_nat 150 = ascii ''150''"
    by (simp add: str_nat.simps ascii_def)
  from rest [THEN conjunct1] have dec: "decimal (ascii ''150'') = 150"
    by (simp only: s150)
  note inst0 = harvest_pages
    [where k = None and category = "ascii ''restaurants''" and location = "ascii ''Paris''"
       and offset = 0 and offset' = 50]
  from inst0 [THEN conjunct2, THEN conjunct2, THEN conjunct2, THEN conjunct2, THEN conjunct2,
    THEN conjunct2, THEN conjunct2, THEN conjunct2, THEN conjunct1]
  have d1: "page_request None (ascii ''restaurants'') (ascii ''Paris'') 0 \<noteq>
     page_request None (ascii ''restaurants'') (ascii ''Paris'') 50"
    by (simp add: scheduled_request_def)
  note inst1 = harvest_pages
    [where k = None and category = "ascii ''restaurants''" and location = "ascii ''Paris''"
       and offset = 50 and location' = "ascii ''Lyon''"]
  from inst1 [THEN conjunct2, THEN conjunct2, THEN conjunct2, THEN conjunct2, THEN conjunct2,
    THEN conjunct2, THEN conjunct2, THEN conjunct2, THEN conjunct2, THEN conjunct1]
  have d2: "page_request None (ascii ''restaurants'') (ascii ''Paris'') 50 \<noteq>
     page_request None (ascii ''restaurants'') (ascii ''Lyon'') 50"
    by (simp add: scheduled_request_def)
  from sent s150 dec d1 d2 show ?thesis
    by (intro conjI harvest_sample offsets)
qed

section \<open>Failing fetches\<close>

text \<open>
  Claim C3 as stated fails: the fetch also raises on a response that has status 200 and
  carries no error list. When the body is not JSON, \<^verbatim>\<open>response.json()\<close> raises; when the
  body is the JSON value \<^verbatim>\<open>null\<close>, the test \<^verbatim>\<open>"errors" in data\<close> raises a \<^verbatim>\<open>TypeError\<close>.
\<close>

theorem fetch_raises_on_success_without_errors:
  "status_code not_json_response = 200 \<and>
   resp_json not_json_response = None \<and>
   check_response not_json_response = Inl JSONDecodeError \<and>
   status_code null_response = 200 \<and>
   resp_json null_response = Some JNull \<and>
   check_response null_response = Inl TypeError"
  by (simp add: not_json_response_def null_response_def check_response_def py_in_def)

text \<open>
  Claim C3, amended. The fetch raises the transport error exactly when the status of the
  response is not 200, and the API error exactly when the status is 200 and the body
  parses to a JSON object that has the key \<^verbatim>\<open>errors\<close>; a response with status 200 whose
  body is a JSON object fails in no other way (without that key its payload is
  returned), while a response with status 200 whose body is not JSON, or is \<^verbatim>\<open>null\<close>,
  makes the fetch raise an exception of Python's own. When the fetch of some page of
  the schedule fails, the harvest returns an exception and no collections, and has
  sent no request beyond that page; when the pages before it were fetched and
  normalised, the harvest ends with the request of that page and raises its exception.
\<close>

theorem fetch_fails_and_harvest_aborts:
  "((\<exists>c m. check_response r = Inl (TransportError c m)) \<longleftrightarrow> status_code r \<noteq> 200) \<and>
   ((\<exists>errs. check_response r = Inl (ApiError errs)) \<longleftrightarrow>
      status_code r = 200 \<and>
      (\<exists>kvs errs. resp_json r = Some (JObj kvs) \<and> map_of kvs (ascii ''errors'') = Some errs)) \<and>
   (status_code r \<noteq> 200 \<longrightarrow>
      check_response r = Inl (TransportError (status_code r) (resp_text r))) \<and>
   (status_code r = 200 \<and> resp_json r = Some (JObj kvs) \<longrightarrow>
      check_response r =
        (case map_of kvs (ascii ''errors'') of
           Some errs \<Rightarrow> Inl (ApiError errs)
         | None \<Rightarrow> Inr (JObj kvs))) \<and>
   (status_code r = 200 \<and> resp_json r = None \<longrightarrow> check_response r = Inl JSONDecodeError) \<and>
   (status_code r = 200 \<and> resp_json r = Some JNull \<longrightarrow> check_response r = Inl TypeError) \<and>
   (i < length (schedule locations) \<and>
    check_response (response_at srv k category sent0 (schedule locations) i) = Inl e \<longrightarrow>
      (\<exists>e' n. n \<le> i \<and>
         get_yelp_data srv k md5 sent0 locations category =
           (sent0 @ map (scheduled_request k category) (take (Suc n) (schedule locations)),
            Inl e'))) \<and>
   (i < length (schedule locations) \<and>
    check_response (response_at srv k category sent0 (schedule locations) i) = Inl e \<and>
    (\<forall>j<i. \<exists>d. page_at srv k md5 category sent0 (schedule locations) j = Inr d) \<longrightarrow>
      get_yelp_data srv k md5 sent0 locations category =
        (sent0 @ map (scheduled_request k category) (take (Suc i) (schedule locations)), Inl e))"
proof -
  let ?pages = "schedule locations"
  let ?run = "get_yelp_data srv k md5 sent0 locations category"
  have transport: "status_code r \<noteq> 200 \<longrightarrow>
      check_response r = Inl (TransportError (status_code r) (resp_text r))"
    by (simp add: check_response_def)
  have api: "status_code r = 200 \<and> resp_json r = Some (JObj kvs) \<longrightarrow>
      check_response r =
        (case map_of kvs (ascii ''errors'') of
           Some errs \<Rightarrow> Inl (ApiError errs)
         | None \<Rightarrow> Inr (JObj kvs))"
    by (auto simp: check_response_def py_in_def py_item_def split: option.splits)
  have first: "\<exists>e' n. n \<le> i \<and> (\<forall>j<n. \<exists>d. page_at srv k md5 category sent0 ?pages j = Inr d) \<and>
      page_at srv k md5 category sent0 ?pages n = Inl e' \<and>
      ?run = (sent0 @ map (scheduled_request k category) (take (Suc n) ?pages), Inl e')"
    if i: "i < length ?pages"
      and fail: "check_response (response_at srv k category sent0 ?pages i) = Inl e"
  proof -
    from fail have page_i: "page_at srv k md5 category sent0 ?pages i = Inl e"
      by (simp add: page_at_def)
    obtain snt' res where run: "?run = (snt', res)"
      by (cases ?run) auto
    show ?thesis
    proof (cases res)
      case (Inr t)
      with run have "page_loop srv k md5 category ?pages sent0 ([], [], []) = (snt', Inr t)"
        by (simp add: get_yelp_data_page_loop)
      from page_loop_Inr [OF this] i obtain d where "page_at srv k md5 category sent0 ?pages i = Inr d"
        by blast
      with page_i show ?thesis by simp
    next
      case (Inl e')
      with run have "page_loop srv k md5 category ?pages sent0 ([], [], []) = (snt', Inl e')"
        by (simp add: get_yelp_data_page_loop)
      from page_loop_Inl [OF this] obtain n where n: "n < length ?pages"
        and snt': "snt' = sent0 @ map (scheduled_request k category) (take (Suc n) ?pages)"
        and fail_n: "page_at srv k md5 category sent0 ?pages n = Inl e'"
        and ok: "\<forall>j<n. \<exists>d. page_at srv k md5 category sent0 ?pages j = Inr d"
        by blast
      have "n \<le> i"
      proof (rule ccontr)
        assume "\<not> n \<le> i"
        then have "i < n" by simp
        with ok obtain d where "page_at srv k md5 category sent0 ?pages i = Inr d"
          by blast
        with page_i show False by simp
      qed
      with ok fail_n run Inl snt' have "n \<le> i \<and>
          (\<forall>j<n. \<exists>d. page_at srv k md5 category sent0 ?pages j = Inr d) \<and>
          page_at srv k md5 category sent0 ?pages n = Inl e' \<and>
          ?run = (sent0 @ map (scheduled_request k category) (take (Suc n) ?pages), Inl e')"
        by simp
      then show ?thesis
        by (intro exI [of _ e'] exI [of _ n])
    qed
  qed
  have abort: "i < length ?pages \<and>
      check_response (response_at srv k category sent0 ?pages i) = Inl e \<longrightarrow>
      (\<exists>e' n. n \<le> i \<and>
         ?run = (sent0 @ map (scheduled_request k category) (take (Suc n) ?pages), Inl e'))"
  proof
    assume "i < length ?pages \<and>
      check_response (response_at srv k category sent0 ?pages i) = Inl e"
    then obtain e' n where "n \<le> i"
      "?run = (sent0 @ map (scheduled_request k category) (take (Suc n) ?pages), Inl e')"
      using first by blast
    then have "n \<le> i \<and>
      ?run = (sent0 @ map (scheduled_request k category) (take (Suc n) ?pages), Inl e')"
      by simp
    then show "\<exists>e' n. n \<le> i \<and>
         ?run = (sent0 @ map (scheduled_request k category) (take (Suc n) ?pages), Inl e')"
      by (intro exI [of _ e'] exI [of _ n])
  qed
  have immediate: "i < length ?pages \<and>
      check_response (response_at srv k category sent0 ?pages i) = Inl e \<and>
      (\<forall>j<i. \<exists>d. page_at srv k md5 category sent0 ?pages j = Inr d) \<longrightarrow>
      ?run = (sent0 @ map (scheduled_request k category) (take (Suc i) ?pages), Inl e)"
  proof
    assume a: "i < length ?pages \<and>
      check_response (response_at srv k category sent0 ?pages i) = Inl e \<and>
      (\<forall>j<i. \<exists>d. page_at srv k md5 category sent0 ?pages j = Inr d)"
    then have page_i: "page_at srv k md5 category sent0 ?pages i = Inl e"
      by (simp add: page_at_def)
    from a first obtain e' n where n: "n \<le> i"
      and fail_n: "page_at srv k md5 category sent0 ?pages n = Inl e'"
      and run: "?run = (sent0 @ map (scheduled_request k category) (take (Suc n) ?pages), Inl e')"
      by blast
    have "n = i"
    proof (rule ccontr)
      assume "n \<noteq> i"
      with n have "n < i" by simp
      with a obtain d where "page_at srv k md5 category sent0 ?pages n = Inr d"
        by blast
      with fail_n show False by simp
    qed
    with fail_n page_i run
    show "?run = (sent0 @ map (scheduled_request k category) (take (Suc i) ?pages), Inl e)"
      by simp
  qed
  have only_transport:
    "(\<exists>c m. check_response r = Inl (TransportError c m)) \<longleftrightarrow> status_code r \<noteq> 200"
    by (cases "resp_json r"; cases "the (resp_json r)")
      (auto simp: check_response_def py_in_def py_item_def split: option.splits)
  have only_api: "(\<exists>errs. check_response r = Inl (ApiError errs)) \<longleftrightarrow>
      status_code r = 200 \<and>
      (\<exists>kvs errs. resp_json r = Some (JObj kvs) \<and> map_of kvs (ascii ''errors'') = Some errs)"
    by (cases "resp_json r"; cases "the (resp_json r)")
      (auto simp: check_response_def py_in_def py_item_def split: option.splits)
  have not_json: "status_code r = 200 \<and> resp_json r = None \<longrightarrow>
      check_response r = Inl JSONDecodeError"
    by (simp add: check_response_def)
  have null: "status_code r = 200 \<and> resp_json r = Some JNull \<longrightarrow>
      check_response r = Inl TypeError"
    by (simp add: check_response_def py_in_def)
  from only_transport only_api transport api not_json null abort immediate show ?thesis
    by (intro conjI)
qed

theorem fetch_fails_and_harvest_aborts_witness:
  "check_response errors_response = Inl (ApiError (JArr [JStr (ascii ''boom'')])) \<and>
   check_response (failing_server [Get []] (Get [])) =
     Inl (TransportError 500 (ascii ''Internal Server Error'')) \<and>
   get_yelp_data failing_server None sample_md5 [] [ascii ''Paris''] (ascii ''restaurants'') =
     (map (page_request None (ascii ''restaurants'') (ascii ''Paris'')) [0, 50],
      Inl (TransportError 500 (ascii ''Internal Server Error''))) \<and>
   check_response
     \<lparr>status_code = 200, resp_text = ascii ''{}'', resp_content = [], resp_json = Some (JObj [])\<rparr> =
     Inr (JObj []) \<and>
   check_response
     \<lparr>status_code = 200, resp_text = ascii ''oops'', resp_content = [], resp_json = None\<rparr> =
     Inl JSONDecodeError \<and>
   check_response
     \<lparr>status_code = 200, resp_text = ascii ''null'', resp_content = [], resp_json = Some JNull\<rparr> =
     Inl TypeError"
proof -
  let ?e = "TransportError 500 (ascii ''Internal Server Error'')"
  let ?kvs = "[(ascii ''errors'', JArr [JStr (ascii ''boom'')])]"
  note inst1 = fetch_fails_and_harvest_aborts
    [of errors_response ?kvs 1 "[ascii ''Paris'']" failing_server None "ascii ''restaurants''" "[]"
        ?e sample_md5]
  note inst2 = fetch_fails_and_harvest_aborts
    [of "failing_server [Get []] (Get [])" ?kvs 1 "[ascii ''Paris'']" failing_server None
        "ascii ''restaurants''" "[]" ?e sample_md5]
  have "status_code errors_response = 200 \<and> resp_json errors_response = Some (JObj ?kvs)"
    by (simp add: errors_response_def)
  with inst1 [THEN conjunct2, THEN conjunct2, THEN conjunct2, THEN conjunct1]
  have api: "check_response errors_response = Inl (ApiError (JArr [JStr (ascii ''boom'')]))"
    by simp
  have "status_code (failing_server [Get []] (Get [])) \<noteq> 200"
    by (simp add: failing_server_def)
  with inst2 [THEN conjunct2, THEN conjunct2, THEN conjunct1]
  have transport: "check_response (failing_server [Get []] (Get [])) = Inl ?e"
    by (simp add: failing_server_def)
  have fail: "check_response
      (response_at failing_server None (ascii ''restaurants'') [] (schedule [ascii ''Paris'']) 1) = Inl ?e"
    by (simp add: schedule_Paris response_at_def failing_server_def check_response_def)
  have "page_at failing_server None sample_md5 (ascii ''restaurants'') [] (schedule [ascii ''Paris'']) 0 =
      Inr ([sample_row], [sample_review], [sample_photo])"
    by (simp add: schedule_Paris page_at_def response_at_def failing_server_def check_sample
        normalize_sample)
  then have ok: "\<forall>j<1. \<exists>d. page_at failing_server None sample_md5 (ascii ''restaurants'') []
      (schedule [ascii ''Paris'']) j = Inr d"
    by (simp del: split_paired_Ex)
  have len: "1 < length (schedule [ascii ''Paris''])"
    by (simp add: schedule_Paris)
  from inst1 [THEN conjunct2, THEN conjunct2, THEN conjunct2, THEN conjunct2, THEN conjunct2,
      THEN conjunct2, THEN conjunct2, THEN mp, OF conjI [OF len conjI [OF fail ok]]]
  have "get_yelp_data failing_server None sample_md5 [] [ascii ''Paris''] (ascii ''restaurants'') =
     (map (page_request None (ascii ''restaurants'') (ascii ''Paris'')) [0, 50], Inl ?e)"
    by (simp add: schedule_Paris scheduled_request_def)
  note harvest = this
  let ?empty = "\<lparr>status_code = 200, resp_text = ascii ''{}'', resp_content = [],
    resp_json = Some (JObj [])\<rparr>"
  let ?text = "\<lparr>status_code = 200, resp_text = ascii ''oops'', resp_content = [],
    resp_json = None\<rparr>"
  let ?null = "\<lparr>status_code = 200, resp_text = ascii ''null'', resp_content = [],
    resp_json = Some JNull\<rparr>"
  from fetch_fails_and_harvest_aborts [where r = ?empty and kvs = "[]",
      THEN conjunct2, THEN conjunct2, THEN conjunct2, THEN conjunct1]
  have empty: "check_response ?empty = Inr (JObj [])"
    by simp
  from fetch_fails_and_harvest_aborts [where r = ?text,
      THEN conjunct2, THEN conjunct2, THEN conjunct2, THEN conjunct2, THEN conjunct1]
  have text_body: "check_response ?text = Inl JSONDecodeError"
    by simp
  from fetch_fails_and_harvest_aborts [where r = ?null,
      THEN conjunct2, THEN conjunct2, THEN conjunct2, THEN conjunct2, THEN conjunct2,
      THEN conjunct1]
  have null_body: "check_response ?null = Inl TypeError"
    by simp
  from api transport harvest empty text_body null_body show ?thesis
    by (intro conjI)
qed

section \<open>Running the download twice\<close>

text \<open>
  Claim C5 as stated fails when a download of the first run failed. With one photo row
  and a server that answers the first request with 404 and the next with 200, the
  first run sends one request and writes nothing, and the second run sends the request
  again and writes the file: one download, and a file system that differs from the one
  after the first run.
\<close>

theorem second_run_downloads_again:
  "net (download_photos flaky_server [download_row] (ascii ''photos'') empty_world) =
     [Get (ascii ''http://p/1'')] \<and>
   net (download_photos flaky_server [download_row] (ascii ''photos'')
         (download_photos flaky_server [download_row] (ascii ''photos'') empty_world)) =
     [Get (ascii ''http://p/1''), Get (ascii ''http://p/1'')] \<and>
   files (fs (download_photos flaky_server [download_row] (ascii ''photos'') empty_world))
     (ascii ''photos/chez-x_0.jpg'') = None \<and>
   files (fs (download_photos flaky_server [download_row] (ascii ''photos'')
         (download_photos flaky_server [download_row] (ascii ''photos'') empty_world)))
     (ascii ''photos/chez-x_0.jpg'') = Some [1] \<and>
   download_photos flaky_server [download_row] (ascii ''photos'')
     (download_photos flaky_server [download_row] (ascii ''photos'') empty_world) \<noteq>
   download_photos flaky_server [download_row] (ascii ''photos'') empty_world"
  unfolding second_run_flaky unfolding first_run_flaky by simp

text \<open>
  Claim C5, amended. A photo whose file exists at the derived path is skipped without
  a request. When the first run logged no warning of a failed download (in particular
  when the server answered every download with status 200), a second run with the same
  rows and directory, whatever the server then answers, sends nothing, logs nothing
  and leaves the file system as it was after the first run.
\<close>

theorem existing_photo_is_skipped:
  "(path_exists (fs w) (path_join tp (file_name photo)) \<longrightarrow>
      download_loop srv tp (photo # rest) w = download_loop srv tp rest w) \<and>
   (warnings (download_photos srv photos tp w) = warnings w \<longrightarrow>
      download_photos srv' photos tp (download_photos srv photos tp w) =
        download_photos srv photos tp w) \<and>
   ((\<forall>h u. status_code (srv h (Get u)) = 200) \<longrightarrow>
      download_photos srv' photos tp (download_photos srv photos tp w) =
        download_photos srv photos tp w)"
proof (intro conjI impI)
  assume "path_exists (fs w) (path_join tp (file_name photo))"
  then show "download_loop srv tp (photo # rest) w = download_loop srv tp rest w"
    by (rule download_loop_exists)
next
  assume "warnings (download_photos srv photos tp w) = warnings w"
  then show "download_photos srv' photos tp (download_photos srv photos tp w) =
        download_photos srv photos tp w"
    by (rule second_run_nothing)
next
  assume ok: "\<forall>h u. status_code (srv h (Get u)) = 200"
  have "warnings (download_photos srv photos tp w) = warnings w"
    unfolding download_photos_def
    by (subst all_ok_no_warning [OF ok]) (simp add: warnings_def is_warning_def)
  then show "download_photos srv' photos tp (download_photos srv photos tp w) =
        download_photos srv photos tp w"
    by (rule second_run_nothing)
qed

theorem existing_photo_is_skipped_witness:
  "download_photos ok_server [download_row] (ascii ''photos'') empty_world =
     \<lparr>fs = \<lparr>files = [ascii ''photos/chez-x_0.jpg'' \<mapsto> [1]], dirs = {ascii ''photos''}\<rparr>,
      net = [Get (ascii ''http://p/1'')],
      logged = [Info (ascii ''Creating photos'')]\<rparr> \<and>
   download_photos flaky_server [download_row] (ascii ''photos'')
     (download_photos ok_server [download_row] (ascii ''photos'') empty_world) =
     download_photos ok_server [download_row] (ascii ''photos'') empty_world \<and>
   download_loop flaky_server (ascii ''photos'') [download_row]
     (download_photos ok_server [download_row] (ascii ''photos'') empty_world) =
     download_photos ok_server [download_row] (ascii ''photos'') empty_world"
proof -
  let ?w1 = "download_photos ok_server [download_row] (ascii ''photos'') empty_world"
  note skip_inst = existing_photo_is_skipped
    [where w = ?w1 and tp = "ascii ''photos''" and photo = download_row and srv = flaky_server
       and rest = "[]" and photos = "[]" and srv' = flaky_server]
  note inst = existing_photo_is_skipped
    [where w = empty_world and tp = "ascii ''photos''" and photo = download_row
       and srv = ok_server and rest = "[]" and photos = "[download_row]" and srv' = flaky_server]
  have ex: "path_exists (fs ?w1) (path_join (ascii ''photos'') (file_name download_row))"
    unfolding first_run_ok by (simp add: path_exists_def download_row_def path_x)
  have nowarn: "warnings ?w1 = warnings empty_world"
    unfolding first_run_ok by (simp add: warnings_def is_warning_def empty_world_def)
  have ok: "\<forall>h u. status_code (ok_server h (Get u)) = 200"
    by (simp add: ok_server_def)
  from skip_inst [THEN conjunct1, THEN mp, OF ex]
  have skip: "download_loop flaky_server (ascii ''photos'') [download_row] ?w1 = ?w1"
    by simp
  from inst [THEN conjunct2, THEN conjunct1, THEN mp, OF nowarn]
  have again: "download_photos flaky_server [download_row] (ascii ''photos'') ?w1 = ?w1" .
  from inst [THEN conjunct2, THEN conjunct2, THEN mp, OF ok]
  have again': "download_photos flaky_server [download_row] (ascii ''photos'') ?w1 = ?w1" .
  show ?thesis
    by (intro conjI first_run_ok again skip)
qed

section \<open>A failed download\<close>

text \<open>
  Claim C8. In a batch, a photo whose file is missing and whose download returns a
  status other than 200 adds its request and a warning and nothing else, and the loop
  goes on with the remaining photos from that state; a photo whose download returns 200
  has its file, with the response body as content, at the end of the batch; and at the
  end of \<^verbatim>\<open>download_photos\<close> every photo of the batch has its file, or the run requested
  it and logged the warning about it.
\<close>

theorem failed_download_is_skipped:
  "(\<not> path_exists (fs (download_loop srv tp pre w)) (path_join tp (file_name photo)) \<and>
    status_code (srv (net (download_loop srv tp pre w)) (Get (photo_url photo))) \<noteq> 200 \<longrightarrow>
      download_loop srv tp (pre @ photo # rest) w =
        download_loop srv tp rest
          ((download_loop srv tp pre w)
             \<lparr>net := net (download_loop srv tp pre w) @ [Get (photo_url photo)],
              logged := logged (download_loop srv tp pre w) @
                [Warning (photo_warning (photo_url photo)
                   (srv (net (download_loop srv tp pre w)) (Get (photo_url photo))))]\<rparr>)) \<and>
   (\<not> path_exists (fs (download_loop srv tp pre w)) (path_join tp (file_name photo)) \<and>
    status_code (srv (net (download_loop srv tp pre w)) (Get (photo_url photo))) = 200 \<longrightarrow>
      files (fs (download_loop srv tp (pre @ photo # rest) w)) (path_join tp (file_name photo)) =
        Some (resp_content (srv (net (download_loop srv tp pre w)) (Get (photo_url photo))))) \<and>
   (\<forall>p\<in>set photos.
      path_exists (fs (download_photos srv photos tp w)) (path_join tp (file_name p)) \<or>
      (\<exists>r. status_code r \<noteq> 200 \<and>
         Warning (photo_warning (photo_url p) r) \<in>
           set (drop (length (logged w)) (logged (download_photos srv photos tp w))) \<and>
         Get (photo_url p) \<in>
           set (drop (length (net w)) (net (download_photos srv photos tp w)))))"
proof (intro conjI impI)
  let ?w1 = "download_loop srv tp pre w"
  assume "\<not> path_exists (fs ?w1) (path_join tp (file_name photo)) \<and>
    status_code (srv (net ?w1) (Get (photo_url photo))) \<noteq> 200"
  then show "download_loop srv tp (pre @ photo # rest) w =
        download_loop srv tp rest
          (?w1\<lparr>net := net ?w1 @ [Get (photo_url photo)],
              logged := logged ?w1 @
                [Warning (photo_warning (photo_url photo)
                   (srv (net ?w1) (Get (photo_url photo))))]\<rparr>)"
    by (simp add: download_loop_append download_loop_failed del: download_loop.simps)
next
  let ?w1 = "download_loop srv tp pre w"
  let ?path = "path_join tp (file_name photo)"
  let ?r = "srv (net ?w1) (Get (photo_url photo))"
  assume a: "\<not> path_exists (fs ?w1) ?path \<and> status_code ?r = 200"
  define w2 where "w2 = ?w1\<lparr>net := net ?w1 @ [Get (photo_url photo)],
      fs := write_file (fs ?w1) ?path (resp_content ?r)\<rparr>"
  from a have "download_loop srv tp (pre @ photo # rest) w = download_loop srv tp rest w2"
    by (simp add: download_loop_append download_loop_written w2_def del: download_loop.simps)
  moreover have "files (fs w2) ?path = Some (resp_content ?r)"
    by (simp add: w2_def write_file_def)
  ultimately show "files (fs (download_loop srv tp (pre @ photo # rest) w)) ?path =
      Some (resp_content ?r)"
    by (simp add: files_kept)
next
  have "\<forall>p\<in>set photos.
      attempted tp p (length (net w)) (length (logged w)) (download_photos srv photos tp w)"
    unfolding download_photos_def by (rule each_photo_attempted) simp_all
  then show "\<forall>p\<in>set photos.
      path_exists (fs (download_photos srv photos tp w)) (path_join tp (file_name p)) \<or>
      (\<exists>r. status_code r \<noteq> 200 \<and>
         Warning (photo_warning (photo_url p) r) \<in>
           set (drop (length (logged w)) (logged (download_photos srv photos tp w))) \<and>
         Get (photo_url p) \<in>
           set (drop (length (net w)) (net (download_photos srv photos tp w))))"
    unfolding attempted_def .
qed

theorem failed_download_is_skipped_witness:
  "download_photos flaky_server [download_row, download_row2] (ascii ''photos'') empty_world =
     \<lparr>fs = \<lparr>files = [ascii ''photos/chez-y_0.jpg'' \<mapsto> [1]], dirs = {ascii ''photos''}\<rparr>,
      net = [Get (ascii ''http://p/1''), Get (ascii ''http://p/2'')],
      logged = [Info (ascii ''Creating photos''),
                Warning (photo_warning (ascii ''http://p/1'')
                  (flaky_server [] (Get (ascii ''http://p/1''))))]\<rparr> \<and>
   files (fs (download_loop flaky_server (ascii ''photos'') ([download_row] @ download_row2 # [])
      created_world)) (ascii ''photos/chez-y_0.jpg'') = Some [1] \<and>
   path_exists
     (fs (download_photos flaky_server [download_row, download_row2] (ascii ''photos'') empty_world))
     (ascii ''photos/chez-y_0.jpg'')"
proof -
  let ?tp = "ascii ''photos''"
  note failed = failed_download_is_skipped
    [where srv = flaky_server and tp = ?tp and pre = "[]" and w = created_world
       and photo = download_row and rest = "[download_row2]" and photos = "[]"]
  note written = failed_download_is_skipped
    [where srv = flaky_server and tp = ?tp and pre = "[download_row]" and w = created_world
       and photo = download_row2 and rest = "[]" and photos = "[]"]
  note all = failed_download_is_skipped
    [where srv = flaky_server and tp = ?tp and pre = "[]" and w = empty_world
       and photo = download_row and rest = "[]" and photos = "[download_row, download_row2]"]
  have h1: "\<not> path_exists (fs (download_loop flaky_server ?tp [] created_world))
        (path_join ?tp (file_name download_row)) \<and>
      status_code (flaky_server (net (download_loop flaky_server ?tp [] created_world))
        (Get (photo_url download_row))) \<noteq> 200"
    by (simp add: created_world_def download_row_def path_exists_def path_x flaky_server_def)
  have h2: "\<not> path_exists (fs (download_loop flaky_server ?tp [download_row] created_world))
        (path_join ?tp (file_name download_row2)) \<and>
      status_code (flaky_server (net (download_loop flaky_server ?tp [download_row] created_world))
        (Get (photo_url download_row2))) = 200"
    unfolding after_first_failed
    by (simp add: created_world_def download_row2_def path_exists_def path_y flaky_server_def)
  from failed [THEN conjunct1, THEN mp, OF h1]
  have run: "download_loop flaky_server ?tp [download_row, download_row2] created_world =
     \<lparr>fs = \<lparr>files = [ascii ''photos/chez-y_0.jpg'' \<mapsto> [1]], dirs = {ascii ''photos''}\<rparr>,
      net = [Get (ascii ''http://p/1''), Get (ascii ''http://p/2'')],
      logged = [Info (ascii ''Creating photos''),
                Warning (photo_warning (ascii ''http://p/1'')
                  (flaky_server [] (Get (ascii ''http://p/1''))))]\<rparr>"
    by (simp add: created_world_def download_row_def download_row2_def path_exists_def path_y
        flaky_server_def Let_def write_file_def)
  from written [THEN conjunct2, THEN conjunct1, THEN mp, OF h2]
  have persisted: "files (fs (download_loop flaky_server ?tp ([download_row] @ download_row2 # [])
      created_world)) (ascii ''photos/chez-y_0.jpg'') = Some [1]"
    unfolding after_first_failed
    by (simp add: download_row2_def path_y flaky_server_def created_world_def)
  from all [THEN conjunct2, THEN conjunct2]
  have "path_exists
       (fs (download_photos flaky_server [download_row, download_row2] ?tp empty_world))
       (path_join ?tp (file_name download_row2)) \<or>
     (\<exists>r. status_code r \<noteq> 200 \<and>
        Warning (photo_warning (photo_url download_row2) r) \<in>
          set (drop (length (logged empty_world))
            (logged (download_photos flaky_server [download_row, download_row2] ?tp empty_world))) \<and>
        Get (photo_url download_row2) \<in>
          set (drop (length (net empty_world))
            (net (download_photos flaky_server [download_row, download_row2] ?tp empty_world))))"
    by simp
  then have ex: "path_exists
     (fs (download_photos flaky_server [download_row, download_row2] ?tp empty_world))
     (ascii ''photos/chez-y_0.jpg'')"
    unfolding download_photos_created run
    by (simp add: path_exists_def download_row2_def path_y)
  show ?thesis
    unfolding download_photos_created
    by (intro conjI run persisted ex [unfolded download_photos_created])
qed

end
